theory Spec2Isabelle
  imports Complex_Main
begin

section \<open>Tabular Q-learning agent\<close>

text \<open>
  A shallow embedding of \<^verbatim>\<open>tabular_qlearner.py\<close>. Python floats are idealised as
  \<^typ>\<open>real\<close> (no rounding, no NaN, no infinities); action ids and the player id are
  natural numbers; \<^verbatim>\<open>num_actions\<close> is an unbounded Python int. An exception is a value
  \<open>Inl e\<close>; the agent's fields after an exception are not modelled. The two draws from
  numpy's global random source (\<^verbatim>\<open>np.random.random()\<close> and the uniform sample inside
  \<^verbatim>\<open>np.random.choice\<close>) are explicit arguments \<open>u\<close> and \<open>v\<close>, both in \<open>[0, 1)\<close>.
\<close>

datatype error = IndexError | ZeroDivisionError | ValueError | OverflowError

subsection \<open>Python and numpy primitives\<close>

text \<open>\<^verbatim>\<open>xs[i]\<close> for a list and a non-negative index.\<close>

definition py_index :: "'a list \<Rightarrow> nat \<Rightarrow> error + 'a" where
  "py_index xs i = (if i < length xs then Inr (xs ! i) else Inl IndexError)"

text \<open>\<^verbatim>\<open>", ".join(parts)\<close> and \<^verbatim>\<open>str\<close> of a list, given the \<^verbatim>\<open>repr\<close> of its elements.\<close>

fun py_join :: "string list \<Rightarrow> string" where
  "py_join [] = []"
| "py_join [s] = s"
| "py_join (s # t # ts) = s @ '', '' @ py_join (t # ts)"

definition py_list_str :: "('a \<Rightarrow> string) \<Rightarrow> 'a list \<Rightarrow> string" where
  "py_list_str f xs = ''['' @ py_join (map f xs) @ '']''"

text \<open>\<^verbatim>\<open>max(xs)\<close>: ValueError on an empty list, else the running maximum.\<close>

fun py_max :: "real list \<Rightarrow> error + real" where
  "py_max [] = Inl ValueError"
| "py_max (x # xs) = Inr (foldl (\<lambda>m y. if m < y then y else m) x xs)"

text \<open>\<^verbatim>\<open>sum(xs)\<close>: a left fold from 0.\<close>

definition py_sum :: "real list \<Rightarrow> real" where
  "py_sum xs = foldl (+) 0 xs"

text \<open>
  \<^verbatim>\<open>np.array(xs, dtype=int)\<close> on a list of floats: every entry is truncated towards zero
  to a 64-bit integer (\<^verbatim>\<open>int\<close> is numpy's \<^verbatim>\<open>int64\<close>), and the conversion raises
  OverflowError at an entry whose truncation does not fit.
\<close>

definition py_trunc :: "real \<Rightarrow> int" where
  "py_trunc x = (if 0 \<le> x then \<lfloor>x\<rfloor> else \<lceil>x\<rceil>)"

definition fits_int64 :: "real \<Rightarrow> bool" where
  "fits_int64 x = (- (2 ^ 63) \<le> py_trunc x \<and> py_trunc x < 2 ^ 63)"

fun np_int_array :: "real list \<Rightarrow> error + int list" where
  "np_int_array [] = Inr []"
| "np_int_array (x # xs) =
     (if fits_int64 x then
        (case np_int_array xs of Inl e \<Rightarrow> Inl e | Inr ys \<Rightarrow> Inr (py_trunc x # ys))
      else Inl OverflowError)"

text \<open>\<^verbatim>\<open>np.zeros(n)\<close>: ValueError on a negative dimension.\<close>

definition np_zeros :: "int \<Rightarrow> error + real list" where
  "np_zeros n = (if n < 0 then Inl ValueError else Inr (replicate (nat n) 0))"

text \<open>\<^verbatim>\<open>np.argmax(xs)\<close>: the first index of the maximum; ValueError on an empty array.\<close>

fun argmax_loop :: "real list \<Rightarrow> nat \<Rightarrow> nat \<Rightarrow> real \<Rightarrow> nat" where
  "argmax_loop [] i best m = best"
| "argmax_loop (x # xs) i best m =
     (if m < x then argmax_loop xs (Suc i) i x else argmax_loop xs (Suc i) best m)"

definition np_argmax :: "real list \<Rightarrow> error + nat" where
  "np_argmax xs = (case xs of [] \<Rightarrow> Inl ValueError | x # rest \<Rightarrow> Inr (argmax_loop rest 1 0 x))"

text \<open>\<^verbatim>\<open>p[idx] = c\<close> with a list of indices: IndexError when one is out of bounds.\<close>

definition np_assign :: "real list \<Rightarrow> nat list \<Rightarrow> real \<Rightarrow> error + real list" where
  "np_assign p idx c =
     (if list_all (\<lambda>i. i < length p) idx then Inr (fold (\<lambda>i q. q[i := c]) idx p)
      else Inl IndexError)"

text \<open>
  \<^verbatim>\<open>np.random.choice(range(n), p=p)\<close> with the uniform sample \<open>v\<close>: numpy rejects an empty
  population, a negative probability and probabilities that do not sum to 1 (within a
  rounding tolerance, which is exact equality over the reals), then returns
  \<^verbatim>\<open>p.cumsum().searchsorted(v, side='right')\<close>.
\<close>

fun cumsum :: "real \<Rightarrow> real list \<Rightarrow> real list" where
  "cumsum acc [] = []"
| "cumsum acc (x # xs) = (acc + x) # cumsum (acc + x) xs"

definition searchsorted_right :: "real list \<Rightarrow> real \<Rightarrow> nat" where
  "searchsorted_right cdf v = length (takeWhile (\<lambda>c. c \<le> v) cdf)"

definition np_random_choice :: "real list \<Rightarrow> real \<Rightarrow> error + nat" where
  "np_random_choice p v =
     (if p = [] then Inl ValueError
      else if list_ex (\<lambda>x. x < 0) p then Inl ValueError
      else if sum_list p \<noteq> 1 then Inl ValueError
      else Inr (searchsorted_right (cumsum 0 p) v))"

subsection \<open>The Value Store: a defaultdict of defaultdicts\<close>

text \<open>
  \<^verbatim>\<open>collections.defaultdict(valuedict)\<close>, with \<^verbatim>\<open>valuedict() = defaultdict(float)\<close>: a read
  of a missing key inserts the default. The inner key is the action, or \<^verbatim>\<open>None\<close> (the
  value of \<^verbatim>\<open>_prev_action\<close> when the agent's previous call was at a terminal step).
\<close>

type_synonym valuedict = "nat option \<rightharpoonup> real"
type_synonym qstore = "string \<rightharpoonup> valuedict"

definition outer_get :: "qstore \<Rightarrow> string \<Rightarrow> valuedict \<times> qstore" where
  "outer_get q s = (case q s of None \<Rightarrow> (Map.empty, q(s \<mapsto> Map.empty)) | Some d \<Rightarrow> (d, q))"

definition q_get :: "qstore \<Rightarrow> string \<Rightarrow> nat option \<Rightarrow> real \<times> qstore" where
  "q_get q s a =
     (case outer_get q s of (d, q1) \<Rightarrow>
        (case d a of None \<Rightarrow> (0, q1(s \<mapsto> d(a \<mapsto> 0))) | Some x \<Rightarrow> (x, q1)))"

definition q_set :: "qstore \<Rightarrow> string \<Rightarrow> nat option \<Rightarrow> real \<Rightarrow> qstore" where
  "q_set q s a x = (case outer_get q s of (d, q1) \<Rightarrow> q1(s \<mapsto> d(a \<mapsto> x)))"

text \<open>\<^verbatim>\<open>[self._q_values[info_state][a] for a in legal_actions]\<close>\<close>

fun q_get_all :: "qstore \<Rightarrow> string \<Rightarrow> nat list \<Rightarrow> real list \<times> qstore" where
  "q_get_all q s [] = ([], q)"
| "q_get_all q s (a # as) =
     (case q_get q s (Some a) of (x, q1) \<Rightarrow>
        (case q_get_all q1 s as of (xs, q2) \<Rightarrow> (x # xs, q2)))"

text \<open>The stored entry, if there is one, and the estimate with a missing entry read as 0.0.\<close>

definition q_entry :: "qstore \<Rightarrow> string \<Rightarrow> nat option \<Rightarrow> real option" where
  "q_entry q s a = (case q s of None \<Rightarrow> None | Some d \<Rightarrow> d a)"

definition q_lookup :: "qstore \<Rightarrow> string \<Rightarrow> nat option \<Rightarrow> real" where
  "q_lookup q s a = (case q_entry q s a of None \<Rightarrow> 0 | Some x \<Rightarrow> x)"

subsection \<open>Agent and time step\<close>

type_synonym rule = "int list \<Rightarrow> error + real"

record 's qlearner =
  player_id :: nat
  num_actions :: int
  step_size :: real
  epsilon_schedule :: 's
  epsilon :: real
  discount_factor :: real
  centralized :: bool
  q_values :: qstore
  prev_info_state :: "string option"
  last_loss_value :: "real option"
  prev_action :: "nat option"
  rules :: "rule list option"

text \<open>
  \<^verbatim>\<open>rl_environment.TimeStep\<close>: \<^verbatim>\<open>observations["info_state"]\<close>,
  \<^verbatim>\<open>observations["legal_actions"]\<close>, \<^verbatim>\<open>rewards\<close> and the result of \<^verbatim>\<open>last()\<close>.
\<close>

record time_step =
  info_state :: "real list list"
  legal_actions :: "nat list list"
  rewards :: "real list option"
  is_last :: bool

record step_output =
  action :: "nat option"
  probs :: "real list option"

text \<open>
  \<^verbatim>\<open>QLearner.__init__\<close>. The schedule class lives in \<^verbatim>\<open>open_spiel.python.rl_tools\<close>; its
  state has type \<open>'s\<close>, its \<^verbatim>\<open>value\<close> property is the argument \<open>sched_value\<close>.
\<close>

definition QLearner_init ::
  "('s \<Rightarrow> real) \<Rightarrow> nat \<Rightarrow> int \<Rightarrow> real \<Rightarrow> 's \<Rightarrow> real \<Rightarrow> rule list option \<Rightarrow> bool \<Rightarrow> 's qlearner" where
  "QLearner_init sched_value pid n alpha sched gamma rs central =
     \<lparr> player_id = pid, num_actions = n, step_size = alpha, epsilon_schedule = sched,
       epsilon = sched_value sched, discount_factor = gamma, centralized = central,
       q_values = Map.empty, prev_info_state = None, last_loss_value = None,
       prev_action = None, rules = rs \<rparr>"

subsection \<open>The action selector\<close>

definition epsilon_greedy ::
  "int \<Rightarrow> qstore \<Rightarrow> string \<Rightarrow> nat list \<Rightarrow> real \<Rightarrow> real \<Rightarrow> real \<Rightarrow> error + (nat \<times> real list \<times> qstore)" where
  "epsilon_greedy n q s legal eps u v =
     (case np_zeros n of Inl e \<Rightarrow> Inl e
      | Inr zeros \<Rightarrow>
        (if u < eps then
           (if legal = [] then Inl ZeroDivisionError
            else (case np_assign zeros legal (1 / real (length legal)) of Inl e \<Rightarrow> Inl e
                  | Inr p \<Rightarrow> (case np_random_choice p v of Inl e \<Rightarrow> Inl e
                              | Inr a \<Rightarrow> Inr (a, p, q))))
         else
           (case q_get_all q s legal of (qs, q1) \<Rightarrow>
              (case np_argmax qs of Inl e \<Rightarrow> Inl e
               | Inr i \<Rightarrow>
                 (case np_assign zeros [legal ! i] 1 of Inl e \<Rightarrow> Inl e
                  | Inr p \<Rightarrow> (case np_random_choice p v of Inl e \<Rightarrow> Inl e
                              | Inr a \<Rightarrow> Inr (a, p, q1)))))))"

subsection \<open>Reward shaping\<close>

text \<open>\<^verbatim>\<open>[rule(current_player_board) for rule in self._rules]\<close>\<close>

fun apply_rules :: "rule list \<Rightarrow> int list \<Rightarrow> error + real list" where
  "apply_rules [] b = Inr []"
| "apply_rules (r # rs) b =
     (case r b of Inl e \<Rightarrow> Inl e
      | Inr x \<Rightarrow> (case apply_rules rs b of Inl e \<Rightarrow> Inl e | Inr xs \<Rightarrow> Inr (x # xs)))"

text \<open>
  The board handed to the rules: a slice of \<^verbatim>\<open>observations["info_state"][0]\<close>, converted
  to an integer array.
\<close>

definition current_player_board :: "nat \<Rightarrow> real list \<Rightarrow> error + int list" where
  "current_player_board pid board =
     np_int_array (if pid = 0 then take 9 (drop 9 board) else drop 18 board)"

definition extra_reward :: "'s qlearner \<Rightarrow> time_step \<Rightarrow> error + real" where
  "extra_reward ag ts =
     (case rules ag of
        None \<Rightarrow> Inr 0
      | Some [] \<Rightarrow> Inr 0
      | Some rs \<Rightarrow>
          (case py_index (info_state ts) 0 of Inl e \<Rightarrow> Inl e
           | Inr board \<Rightarrow>
             (case current_player_board (player_id ag) board of Inl e \<Rightarrow> Inl e
              | Inr cells \<Rightarrow>
                (case apply_rules rs cells of
                   Inl e \<Rightarrow> Inl e
                 | Inr xs \<Rightarrow> Inr (py_sum xs)))))"

definition get_action_reward :: "'s qlearner \<Rightarrow> time_step \<Rightarrow> error + real" where
  "get_action_reward ag ts =
     (case rewards ts of
        None \<Rightarrow> Inr 0
      | Some rw \<Rightarrow>
          (case extra_reward ag ts of Inl e \<Rightarrow> Inl e
           | Inr extra \<Rightarrow>
             (case py_index rw (player_id ag) of Inl e \<Rightarrow> Inl e
              | Inr r \<Rightarrow> Inr (r + extra))))"

subsection \<open>The step operation\<close>

text \<open>The State Key: \<^verbatim>\<open>str\<close> of all players' vectors, or of the owning player's vector.\<close>

definition info_state_key :: "(real \<Rightarrow> string) \<Rightarrow> bool \<Rightarrow> nat \<Rightarrow> real list list \<Rightarrow> error + string" where
  "info_state_key float_repr central pid obs =
     (if central then Inr (py_list_str (py_list_str float_repr) obs)
      else (case py_index obs pid of Inl e \<Rightarrow> Inl e
            | Inr vec \<Rightarrow> Inr (py_list_str float_repr vec)))"

text \<open>Act step: no action at a terminal time step.\<close>

definition act ::
  "'s qlearner \<Rightarrow> time_step \<Rightarrow> string \<Rightarrow> nat list \<Rightarrow> bool \<Rightarrow> bool \<Rightarrow> real \<Rightarrow> real
     \<Rightarrow> error + (nat option \<times> real list option \<times> qstore)" where
  "act ag ts key legal is_evaluation top1 u v =
     (if is_last ts then Inr (None, None, q_values ag)
      else
        (case epsilon_greedy (num_actions ag) (q_values ag) key legal
                (if is_evaluation then 0 else epsilon ag) u v of
           Inl e \<Rightarrow> Inl e
         | Inr (a, p, q1) \<Rightarrow>
             (if top1 \<or> is_evaluation then
                (case np_argmax p of Inl e \<Rightarrow> Inl e | Inr a' \<Rightarrow> Inr (Some a', Some p, q1))
              else Inr (Some a, Some p, q1))))"

text \<open>
  The prior key when \<^verbatim>\<open>self._prev_info_state\<close> is true: neither \<^verbatim>\<open>None\<close> nor the
  empty string.
\<close>

definition pending_key :: "'s qlearner \<Rightarrow> string option" where
  "pending_key ag =
     (case prev_info_state ag of None \<Rightarrow> None | Some k \<Rightarrow> (if k = [] then None else Some k))"

text \<open>
  Learn step for the prior key \<open>pk\<close>, up to the advance of the schedule. \<open>sched_step\<close> is the schedule's
  \<^verbatim>\<open>step()\<close>: it returns the value after the change and the schedule's new state.
\<close>

definition learn ::
  "('s \<Rightarrow> real \<times> 's) \<Rightarrow> 's qlearner \<Rightarrow> time_step \<Rightarrow> string \<Rightarrow> nat list \<Rightarrow> string
     \<Rightarrow> error + 's qlearner" where
  "learn sched_step ag ts key legal pk =
     (case get_action_reward ag ts of Inl e \<Rightarrow> Inl e
      | Inr reward \<Rightarrow>
        (case (if is_last ts then Inr (reward, q_values ag)
               else (case q_get_all (q_values ag) key legal of (qs, q1) \<Rightarrow>
                       (case py_max qs of Inl e \<Rightarrow> Inl e
                        | Inr m \<Rightarrow> Inr (reward + discount_factor ag * m, q1)))) of
           Inl e \<Rightarrow> Inl e
         | Inr (target, q1) \<Rightarrow>
             (let pa = prev_action ag;
                  (old, q2) = q_get q1 pk pa;
                  (old', q3) = q_get q2 pk pa;
                  q4 = q_set q3 pk pa (old + step_size ag * (target - old'));
                  (new, q5) = q_get q4 pk pa;
                  (eps, sched) = sched_step (epsilon_schedule ag)
              in Inr (ag\<lparr> q_values := q5, last_loss_value := Some (new - target),
                         epsilon := eps, epsilon_schedule := sched \<rparr>))))"

definition step ::
  "(real \<Rightarrow> string) \<Rightarrow> ('s \<Rightarrow> real \<times> 's) \<Rightarrow> 's qlearner \<Rightarrow> time_step \<Rightarrow> bool \<Rightarrow> bool \<Rightarrow> real \<Rightarrow> real
     \<Rightarrow> error + (step_output option \<times> 's qlearner)" where
  "step float_repr sched_step ag ts is_evaluation top1 u v =
     (case info_state_key float_repr (centralized ag) (player_id ag) (info_state ts) of
        Inl e \<Rightarrow> Inl e
      | Inr key \<Rightarrow>
        (case py_index (legal_actions ts) (player_id ag) of Inl e \<Rightarrow> Inl e
         | Inr legal \<Rightarrow>
           (case act ag ts key legal is_evaluation top1 u v of Inl e \<Rightarrow> Inl e
            | Inr (a, p, q1) \<Rightarrow>
              (let ag1 = ag\<lparr> q_values := q1 \<rparr>;
                   out = \<lparr> action = a, probs = p \<rparr>
               in (case (if is_evaluation then None else pending_key ag1) of
                     Some pk \<Rightarrow>
                       (case learn sched_step ag1 ts key legal pk of Inl e \<Rightarrow> Inl e
                        | Inr ag2 \<Rightarrow>
                            (if is_last ts then Inr (None, ag2\<lparr> prev_info_state := None \<rparr>)
                             else Inr (Some out,
                                       ag2\<lparr> prev_info_state := Some key, prev_action := a \<rparr>)))
                   | None \<Rightarrow>
                       (if \<not> is_evaluation then
                          Inr (Some out, ag1\<lparr> prev_info_state := Some key, prev_action := a \<rparr>)
                        else Inr (Some out, ag1)))))))"

text \<open>The agent a step leaves behind, if the step returns.\<close>

definition agent_after :: "error + (step_output option \<times> 's qlearner) \<Rightarrow> 's qlearner option" where
  "agent_after r = (case r of Inl e \<Rightarrow> None | Inr (out, ag) \<Rightarrow> Some ag)"

subsection \<open>Collaborators used in the examples\<close>

text \<open>
  Modelled from the spec: \<^verbatim>\<open>rl_tools.ConstantSchedule\<close>, the default schedule, is part of
  OpenSpiel and not of this repository. The spec says of it: "\<^verbatim>\<open>value\<close> returns the same
  number before and after any number of \<^verbatim>\<open>step()\<close> advances". Its state is the number.
\<close>

definition constant_value :: "real \<Rightarrow> real" where
  "constant_value c = c"

definition constant_step :: "real \<Rightarrow> real \<times> real" where
  "constant_step c = (c, c)"

text \<open>
  Python's \<^verbatim>\<open>repr\<close> of the floats 0.0 and 1.0, the only entries of the information-state
  tensor of tic-tac-toe. It is not Python's \<^verbatim>\<open>repr\<close> at any other number, and is applied to
  no other number below.
\<close>

definition float01_repr :: "real \<Rightarrow> string" where
  "float01_repr x = (if x = 0 then ''0.0'' else ''1.0'')"

subsection \<open>Example inputs\<close>

text \<open>
  The TD update scenario: step size 0.5, discount factor 1.0, no reward rules, a pending
  transition whose estimate is still missing, and a terminal time step that pays player 0
  the reward 1.0.
\<close>

definition scenario_agent :: "real qlearner" where
  "scenario_agent = (QLearner_init constant_value 0 9 (1/2) (1/5) 1 None False)
            \<lparr> prev_info_state := Some ''[0.0]'', prev_action := Some 4 \<rparr>"

definition terminal_win :: time_step where
  "terminal_win = \<lparr> info_state = [[1], [1]], legal_actions = [[], []],
                    rewards = Some [1, -1], is_last = True \<rparr>"

text \<open>
  A newly constructed agent for player 0 with nine actions, and a non-terminal time step
  at which player 0 may play action 0 or 1.
\<close>

definition fresh_agent :: "real qlearner" where
  "fresh_agent = QLearner_init constant_value 0 9 (1/10) (1/5) 1 None False"

definition first_move :: time_step where
  "first_move = \<lparr> info_state = [[1, 1, 0], [1, 1, 0]], legal_actions = [[0, 1], []],
               rewards = None, is_last = False \<rparr>"

subsection \<open>The reward rule of the training script\<close>

text \<open>
  \<^verbatim>\<open>likeable_pattern\<close> of \<^verbatim>\<open>tic_tac_toe_qlearner.py\<close>, the rule the script configures:
  0 at the first cell that differs from the mask, 1000 when none of the nine does.
\<close>

definition flat_reward_mask :: "int list" where
  "flat_reward_mask = [0, 1, 0, 1, 0, 1, 0, 0, 0]"

fun likeable_loop :: "nat list \<Rightarrow> int list \<Rightarrow> error + real" where
  "likeable_loop [] board = Inr 1000"
| "likeable_loop (i # is) board =
     (case py_index board i of Inl e \<Rightarrow> Inl e
      | Inr c \<Rightarrow> (if c \<noteq> flat_reward_mask ! i then Inr 0 else likeable_loop is board))"

definition likeable_pattern :: rule where
  "likeable_pattern board = likeable_loop [0, 1, 2, 3, 4, 5, 6, 7, 8] board"

text \<open>The rules that are applied: none when \<^verbatim>\<open>self._rules\<close> is \<^verbatim>\<open>None\<close> or empty.\<close>

definition configured_rules :: "'s qlearner \<Rightarrow> rule list" where
  "configured_rules ag = (case rules ag of None \<Rightarrow> [] | Some rs \<Rightarrow> rs)"

text \<open>
  Agents configured as the training script does, and two positions: one whose slice
  \<^verbatim>\<open>[9:18]\<close> of player 0's vector is the mask, one whose slice \<^verbatim>\<open>[18:]\<close> is.
\<close>

definition noughts_board :: "real list" where
  "noughts_board = [1, 0, 1, 0, 1, 0, 1, 1, 1,
                    0, 0, 0, 0, 0, 0, 0, 0, 0,
                    0, 1, 0, 1, 0, 1, 0, 0, 0]"

definition noughts_position :: time_step where
  "noughts_position = \<lparr> info_state = [noughts_board, replicate 27 0],
                         legal_actions = [[], [0, 2, 4, 6, 7, 8]], rewards = Some [0, 0],
                         is_last = False \<rparr>"

definition shaped_agent :: "nat \<Rightarrow> real qlearner" where
  "shaped_agent pid =
     QLearner_init constant_value pid 9 (1/10) (1/5) (3/5) (Some [likeable_pattern]) False"

definition liked_board :: "real list" where
  "liked_board = [1, 0, 1, 0, 1, 0, 1, 1, 1,
                  0, 1, 0, 1, 0, 1, 0, 0, 0,
                  0, 0, 0, 0, 0, 0, 0, 0, 0]"

definition liked_position :: "real list option \<Rightarrow> time_step" where
  "liked_position rw = \<lparr> info_state = [liked_board, liked_board],
                          legal_actions = [[0, 2, 4, 6, 7, 8], []], rewards = rw, is_last = False \<rparr>"

text \<open>
  An agent whose store holds the estimates 0.2, 0.8 and 0.8 for the actions 0, 1 and 2 of
  one key, a position with that key where those three actions are legal, and a
  non-terminal position without legal actions.
\<close>

definition tied_agent :: "real qlearner" where
  "tied_agent = fresh_agent
     \<lparr> q_values := [''[1.0, 1.0, 0.0]'' \<mapsto> [Some 0 \<mapsto> 1/5, Some 1 \<mapsto> 4/5, Some 2 \<mapsto> 4/5]] \<rparr>"

text \<open>The same agent with a pending transition whose estimate is still missing.\<close>

definition pending_agent :: "real qlearner" where
  "pending_agent = tied_agent \<lparr> prev_info_state := Some ''[0.0, 0.0, 0.0]'', prev_action := Some 4 \<rparr>"

definition tied_position :: time_step where
  "tied_position = \<lparr> info_state = [[1, 1, 0], [1, 1, 0]], legal_actions = [[0, 1, 2], []],
                      rewards = Some [0, 0], is_last = False \<rparr>"

definition stuck_position :: time_step where
  "stuck_position = \<lparr> info_state = [[1, 1, 0], [1, 1, 0]], legal_actions = [[], []],
                       rewards = Some [0, 0], is_last = False \<rparr>"

section \<open>Properties\<close>

subsection \<open>The Value Store\<close>

lemma fst_q_get: "fst (q_get q s a) = q_lookup q s a"
  by (simp add: q_get_def outer_get_def q_lookup_def q_entry_def split: option.splits)

lemma q_entry_q_get:
  "q_entry (snd (q_get q s a)) s' a' =
     (if s' = s \<and> a' = a \<and> q_entry q s a = None then Some 0 else q_entry q s' a')"
  by (simp add: q_get_def outer_get_def q_entry_def split: option.splits)

lemma q_entry_q_set:
  "q_entry (q_set q s a x) s' a' = (if s' = s \<and> a' = a then Some x else q_entry q s' a')"
  by (simp add: q_set_def outer_get_def q_entry_def split: option.splits)

lemma q_lookup_q_get: "q_lookup (snd (q_get q s a)) s' a' = q_lookup q s' a'"
  by (simp add: q_lookup_def q_entry_q_get)

lemma q_lookup_q_set:
  "q_lookup (q_set q s a x) s' a' = (if s' = s \<and> a' = a then x else q_lookup q s' a')"
  by (simp add: q_lookup_def q_entry_q_set)

lemma q_get_all_fst: "fst (q_get_all q s legal) = map (\<lambda>a. q_lookup q s (Some a)) legal"
proof (induction legal arbitrary: q)
  case Nil
  show ?case by simp
next
  case (Cons a as)
  obtain x q1 where g: "q_get q s (Some a) = (x, q1)" by (cases "q_get q s (Some a)")
  have x: "x = q_lookup q s (Some a)" using g fst_q_get [of q s "Some a"] by simp
  have q1: "\<And>b. q_lookup q1 s b = q_lookup q s b" using g q_lookup_q_get [of q s "Some a" s] by simp
  obtain xs q2 where r: "q_get_all q1 s as = (xs, q2)" by (cases "q_get_all q1 s as")
  have "xs = map (\<lambda>a. q_lookup q1 s (Some a)) as" using Cons.IH [of q1] r by simp
  then show ?case using g r x q1 by simp
qed

lemma q_get_all_entry:
  "q_entry (snd (q_get_all q s legal)) s' a' =
     (if s' = s \<and> a' \<in> Some ` set legal \<and> q_entry q s' a' = None then Some 0
      else q_entry q s' a')"
proof (induction legal arbitrary: q)
  case Nil
  show ?case by simp
next
  case (Cons a as)
  obtain x q1 where g: "q_get q s (Some a) = (x, q1)" by (cases "q_get q s (Some a)")
  have q1: "q_entry q1 s' a' =
     (if s' = s \<and> a' = Some a \<and> q_entry q s (Some a) = None then Some 0 else q_entry q s' a')"
    using g q_entry_q_get [of q s "Some a" s' a'] by simp
  obtain xs q2 where r: "q_get_all q1 s as = (xs, q2)" by (cases "q_get_all q1 s as")
  have "q_entry q2 s' a' =
     (if s' = s \<and> a' \<in> Some ` set as \<and> q_entry q1 s' a' = None then Some 0
      else q_entry q1 s' a')" using Cons.IH [of q1] r by simp
  then show ?case using g r q1 by auto
qed

lemma q_get_all_lookup: "q_lookup (snd (q_get_all q s legal)) s' a' = q_lookup q s' a'"
  by (auto simp: q_lookup_def q_get_all_entry)

subsection \<open>The learn step\<close>

lemma py_max_Max: "xs \<noteq> [] \<Longrightarrow> py_max xs = Inr (Max (set xs))"
proof -
  have f: "\<And>m. foldl (\<lambda>m y. if m < y then y else m) m ys = Max (insert m (set ys))" for ys :: "real list"
  proof (induction ys)
    case Nil show ?case by simp
  next
    case (Cons y ys)
    have "(if m < y then y else m) = max m y" by (simp add: max_def)
    moreover have "Max (insert (max m y) (set ys)) = Max (insert m (insert y (set ys)))"
      by (cases "ys = []") (simp_all add: max.assoc)
    ultimately show ?case using Cons.IH [of "max m y"] by simp
  qed
  assume "xs \<noteq> []"
  then obtain x rest where "xs = x # rest" by (cases xs) auto
  then show ?thesis using f [of x rest] by simp
qed

lemma extra_reward_q [simp]:
  "extra_reward (ag\<lparr>q_values := q\<rparr>) ts = extra_reward ag ts"
  by (simp add: extra_reward_def split: option.splits list.splits sum.splits)

lemma get_action_reward_q [simp]:
  "get_action_reward (ag\<lparr>q_values := q\<rparr>) ts = get_action_reward ag ts"
  by (simp add: get_action_reward_def split: option.splits sum.splits)

lemma learn_result:
  assumes "learn S ag ts key legal pk = Inr ag'"
  shows "\<exists>reward target new.
           get_action_reward ag ts = Inr reward
         \<and> (if is_last ts then target = reward
            else legal \<noteq> [] \<and> target = reward + discount_factor ag
                   * Max ((\<lambda>a. q_lookup (q_values ag) key (Some a)) ` set legal))
         \<and> new = q_lookup (q_values ag) pk (prev_action ag)
                  + step_size ag * (target - q_lookup (q_values ag) pk (prev_action ag))
         \<and> ag' = ag\<lparr> q_values := q_values ag', last_loss_value := Some (new - target),
                     epsilon := fst (S (epsilon_schedule ag)),
                     epsilon_schedule := snd (S (epsilon_schedule ag)) \<rparr>
         \<and> (\<forall>s a. q_entry (q_values ag') s a =
                (if s = pk \<and> a = prev_action ag then Some new
                 else if \<not> is_last ts \<and> s = key \<and> a \<in> Some ` set legal
                         \<and> q_entry (q_values ag) s a = None then Some 0
                 else q_entry (q_values ag) s a))"
proof -
  from assms obtain reward where rw: "get_action_reward ag ts = Inr reward"
    by (auto simp: learn_def split: sum.splits)
  define q1 where "q1 = (if is_last ts then q_values ag else snd (q_get_all (q_values ag) key legal))"
  define m where "m = Max ((\<lambda>a. q_lookup (q_values ag) key (Some a)) ` set legal)"
  define target where "target = (if is_last ts then reward else reward + discount_factor ag * m)"
  have ne: "\<not> is_last ts \<Longrightarrow> legal \<noteq> []"
    using assms rw by (auto simp: learn_def split: sum.splits prod.splits)
  have tq: "(if is_last ts then Inr (reward, q_values ag)
               else (case q_get_all (q_values ag) key legal of (qs, q1) \<Rightarrow>
                       (case py_max qs of Inl e \<Rightarrow> Inl e
                        | Inr m \<Rightarrow> Inr (reward + discount_factor ag * m, q1)))) = Inr (target, q1)"
  proof (cases "is_last ts")
    case True
    then show ?thesis by (simp add: target_def q1_def)
  next
    case False
    obtain qs q' where g: "q_get_all (q_values ag) key legal = (qs, q')"
      by (cases "q_get_all (q_values ag) key legal")
    have qs: "qs = map (\<lambda>a. q_lookup (q_values ag) key (Some a)) legal"
      using g q_get_all_fst [of "q_values ag" key legal] by simp
    have "qs \<noteq> []" using qs ne False by simp
    then have "py_max qs = Inr (Max (set qs))" by (rule py_max_Max)
    then show ?thesis using False g qs by (simp add: target_def q1_def m_def)
  qed
  define pa where "pa = prev_action ag"
  define old where "old = q_lookup (q_values ag) pk pa"
  define new where "new = old + step_size ag * (target - old)"
  have l1: "\<And>s a. q_lookup q1 s a = q_lookup (q_values ag) s a"
    by (simp add: q1_def q_get_all_lookup)
  define q2 where "q2 = snd (q_get q1 pk pa)"
  define q3 where "q3 = snd (q_get q2 pk pa)"
  define q4 where "q4 = q_set q3 pk pa new"
  define q5 where "q5 = snd (q_get q4 pk pa)"
  have g1: "q_get q1 pk pa = (old, q2)"
    using fst_q_get [of q1 pk pa] l1 by (simp add: old_def q2_def prod_eq_iff)
  have g2: "q_get q2 pk pa = (old, q3)"
    using fst_q_get [of q2 pk pa] l1 q_lookup_q_get [of q1 pk pa pk pa]
    by (simp add: old_def q2_def q3_def prod_eq_iff)
  have g4: "q_get (q_set q3 pk pa (old + step_size ag * (target - old))) pk pa = (new, q5)"
    using fst_q_get [of q4 pk pa] by (simp add: q4_def q5_def new_def q_lookup_q_set prod_eq_iff)
  have res: "ag' = ag\<lparr> q_values := q5, last_loss_value := Some (new - target),
                     epsilon := fst (S (epsilon_schedule ag)),
                     epsilon_schedule := snd (S (epsilon_schedule ag)) \<rparr>"
    using assms rw tq g1 g2 g4
    by (simp add: learn_def pa_def [symmetric] split: prod.splits)
  have q5: "q_values ag' = q5" using res by simp
  have e: "q_entry q5 s a =
                (if s = pk \<and> a = pa then Some new
                 else if \<not> is_last ts \<and> s = key \<and> a \<in> Some ` set legal
                         \<and> q_entry (q_values ag) s a = None then Some 0
                 else q_entry (q_values ag) s a)" for s a
  proof -
    have e1: "q_entry q1 s a =
        (if \<not> is_last ts \<and> s = key \<and> a \<in> Some ` set legal
            \<and> q_entry (q_values ag) s a = None then Some 0
         else q_entry (q_values ag) s a)"
      by (auto simp: q1_def q_get_all_entry)
    have e4: "q_entry q5 s a = (if s = pk \<and> a = pa then Some new else q_entry q1 s a)"
      by (simp add: q5_def q4_def q3_def q2_def q_entry_q_get q_entry_q_set)
    show ?thesis unfolding e4 e1 by simp
  qed
  have t: "(if is_last ts then target = reward
            else legal \<noteq> [] \<and> target = reward + discount_factor ag
                   * Max ((\<lambda>a. q_lookup (q_values ag) key (Some a)) ` set legal))"
    using ne by (simp add: target_def m_def)
  have n: "new = q_lookup (q_values ag) pk (prev_action ag)
                  + step_size ag * (target - q_lookup (q_values ag) pk (prev_action ag))"
    by (simp add: new_def old_def pa_def)
  have r: "ag' = ag\<lparr> q_values := q_values ag', last_loss_value := Some (new - target),
                     epsilon := fst (S (epsilon_schedule ag)),
                     epsilon_schedule := snd (S (epsilon_schedule ag)) \<rparr>"
    using res q5 by simp
  have e': "\<forall>s a. q_entry (q_values ag') s a =
                (if s = pk \<and> a = prev_action ag then Some new
                 else if \<not> is_last ts \<and> s = key \<and> a \<in> Some ` set legal
                         \<and> q_entry (q_values ag) s a = None then Some 0
                 else q_entry (q_values ag) s a)"
    using e unfolding q5 pa_def by blast
  from rw t n r e' show ?thesis by blast
qed

subsection \<open>The structure of a step\<close>

lemma epsilon_greedy_store:
  assumes "epsilon_greedy n q s legal eps u v = Inr (a, p, q1)"
  shows "q1 = (if u < eps then q else snd (q_get_all q s legal))"
  using assms
  by (auto simp: epsilon_greedy_def split: sum.splits if_splits prod.splits)

lemma act_store:
  assumes "act ag ts key legal ev top1 u v = Inr (a, p, q1)"
  shows "q1 = (if is_last ts \<or> u < (if ev then 0 else epsilon ag) then q_values ag
               else snd (q_get_all (q_values ag) key legal))"
proof (cases "is_last ts")
  case True
  then show ?thesis using assms by (simp add: act_def)
next
  case False
  then obtain a0 p0 where eg: "epsilon_greedy (num_actions ag) (q_values ag) key legal
                (if ev then 0 else epsilon ag) u v = Inr (a0, p0, q1)"
    using assms by (auto simp: act_def split: sum.splits if_splits)
  show ?thesis using epsilon_greedy_store [OF eg] False by simp
qed

lemma act_last:
  "is_last ts \<Longrightarrow> act ag ts key legal ev top1 u v = Inr (None, None, q_values ag)"
  by (simp add: act_def)

lemma act_entry:
  assumes "act ag ts key legal ev top1 u v = Inr (a, p, q1)"
  shows "q_entry q1 s b = q_entry (q_values ag) s b
       \<or> (q_entry (q_values ag) s b = None \<and> q_entry q1 s b = Some 0
            \<and> s = key \<and> b \<in> Some ` set legal \<and> \<not> is_last ts)"
  using act_store [OF assms] by (auto simp: q_get_all_entry)

lemma act_lookup:
  assumes "act ag ts key legal ev top1 u v = Inr (a, p, q1)"
  shows "q_lookup q1 s b = q_lookup (q_values ag) s b"
  using act_store [OF assms] by (auto simp: q_get_all_lookup)

lemma pending_key_q [simp]: "pending_key (ag\<lparr>q_values := q\<rparr>) = pending_key ag"
  by (simp add: pending_key_def)

lemma step_training_pending:
  assumes st: "step R S ag ts False top1 u v = Inr (out, ag')"
      and pk: "pending_key ag = Some pk"
  shows "\<exists>key legal a p q1 ag2.
           info_state_key R (centralized ag) (player_id ag) (info_state ts) = Inr key
         \<and> py_index (legal_actions ts) (player_id ag) = Inr legal
         \<and> act ag ts key legal False top1 u v = Inr (a, p, q1)
         \<and> learn S (ag\<lparr>q_values := q1\<rparr>) ts key legal pk = Inr ag2
         \<and> (if is_last ts then out = None \<and> ag' = ag2\<lparr>prev_info_state := None\<rparr>
            else out = Some \<lparr>action = a, probs = p\<rparr>
               \<and> ag' = ag2\<lparr>prev_info_state := Some key, prev_action := a\<rparr>)"
  using st pk
  by (auto simp: step_def Let_def split: sum.splits prod.splits if_splits)

subsection \<open>Evaluation of concrete calls\<close>

lemmas store_defs = q_get_def q_set_def outer_get_def q_lookup_def q_entry_def

lemmas step_defs = step_def info_state_key_def py_index_def py_list_str_def act_def
  pending_key_def learn_def get_action_reward_def extra_reward_def Let_def


lemma np_zeros_9: "np_zeros 9 = Inr [0, 0, 0, 0, 0, 0, 0, 0, 0]"
  by (simp add: np_zeros_def numeral_eq_Suc)

lemmas select_defs = epsilon_greedy_def np_argmax_def np_assign_def np_random_choice_def
  searchsorted_right_def

lemma pending_key_Some: "prev_info_state ag = Some pk \<Longrightarrow> pk \<noteq> [] \<Longrightarrow> pending_key ag = Some pk"
  by (simp add: pending_key_def)

subsection \<open>The TD(0) update\<close>

text \<open>
  C1. A training call with a pending transition \<open>(pk, prev_action)\<close> that returns has
  computed the shaped reward; its target is that reward at a terminal time step and
  otherwise the reward plus the discount factor times the largest estimate among the legal
  actions of the current key (a missing entry read as 0.0); the entry at the pending
  transition holds \<open>old + step_size * (target - old)\<close> afterwards, and the recorded loss
  is the new estimate minus the target.
\<close>

theorem td_update_on_training_step:
  assumes st: "step R S ag ts False top1 u v = Inr (out, ag')"
      and prev: "prev_info_state ag = Some pk" and ne: "pk \<noteq> []"
  shows "\<exists>reward key legal target old new.
           get_action_reward ag ts = Inr reward
         \<and> info_state_key R (centralized ag) (player_id ag) (info_state ts) = Inr key
         \<and> py_index (legal_actions ts) (player_id ag) = Inr legal
         \<and> (if is_last ts then target = reward
            else legal \<noteq> [] \<and> target = reward + discount_factor ag
                   * Max ((\<lambda>a. q_lookup (q_values ag) key (Some a)) ` set legal))
         \<and> old = q_lookup (q_values ag) pk (prev_action ag)
         \<and> new = old + step_size ag * (target - old)
         \<and> q_entry (q_values ag') pk (prev_action ag) = Some new
         \<and> last_loss_value ag' = Some (new - target)"
proof -
  from step_training_pending [OF st pending_key_Some [OF prev ne]]
  obtain key legal a p q1 ag2 where
        k: "info_state_key R (centralized ag) (player_id ag) (info_state ts) = Inr key"
    and l: "py_index (legal_actions ts) (player_id ag) = Inr legal"
    and a: "act ag ts key legal False top1 u v = Inr (a, p, q1)"
    and le: "learn S (ag\<lparr>q_values := q1\<rparr>) ts key legal pk = Inr ag2"
    and fin: "if is_last ts then out = None \<and> ag' = ag2\<lparr>prev_info_state := None\<rparr>
            else out = Some \<lparr>action = a, probs = p\<rparr>
               \<and> ag' = ag2\<lparr>prev_info_state := Some key, prev_action := a\<rparr>"
    by blast
  have lk: "\<And>s b. q_lookup q1 s b = q_lookup (q_values ag) s b"
    using act_lookup [OF a] by simp
  define ag1 where "ag1 = ag\<lparr>q_values := q1\<rparr>"
  have f1: "prev_action ag1 = prev_action ag" "step_size ag1 = step_size ag"
           "discount_factor ag1 = discount_factor ag" "q_values ag1 = q1"
           "get_action_reward ag1 ts = get_action_reward ag ts"
    by (simp_all add: ag1_def)
  from learn_result [OF le [folded ag1_def]] obtain reward target new where
        rw: "get_action_reward ag1 ts = Inr reward"
    and t: "if is_last ts then target = reward
            else legal \<noteq> [] \<and> target = reward + discount_factor ag1
                   * Max ((\<lambda>a. q_lookup (q_values ag1) key (Some a)) ` set legal)"
    and n: "new = q_lookup (q_values ag1) pk (prev_action ag1)
                  + step_size ag1 * (target - q_lookup (q_values ag1) pk (prev_action ag1))"
    and r: "ag2 = ag1\<lparr> q_values := q_values ag2, last_loss_value := Some (new - target),
                     epsilon := fst (S (epsilon_schedule ag1)),
                     epsilon_schedule := snd (S (epsilon_schedule ag1)) \<rparr>"
    and e: "\<forall>s a. q_entry (q_values ag2) s a =
                (if s = pk \<and> a = prev_action ag1 then Some new
                 else if \<not> is_last ts \<and> s = key \<and> a \<in> Some ` set legal
                         \<and> q_entry (q_values ag1) s a = None then Some 0
                 else q_entry (q_values ag1) s a)"
    by blast
  note rw = rw [unfolded f1] and t = t [unfolded f1 lk] and n = n [unfolded f1 lk]
  have e: "q_entry (q_values ag2) pk (prev_action ag) = Some new"
    using e f1 by simp
  have q': "q_values ag' = q_values ag2" and loss': "last_loss_value ag' = last_loss_value ag2"
    using fin by (auto split: if_splits)
  have loss: "last_loss_value ag2 = Some (new - target)" by (subst r) simp
  from rw k l t n e [folded q'] loss [folded loss'] show ?thesis by blast
qed


text \<open>
  Two scenarios of the spec. Step size 0.5, discount factor 1.0, estimate 0.0, terminal
  reward 1.0, no shaping: the estimate becomes 0.5 and the loss -0.5. Step size 0.1,
  discount factor 1.0, estimate 0.0, non-terminal reward 0 and next estimates 0.2, 0.8 and
  0.8: the target is 0.8, the estimate becomes 0.08 and the loss -0.72.
\<close>

theorem td_update_on_training_step_witness:
  "(\<exists>out ag'. step float01_repr constant_step scenario_agent terminal_win False False 0 0
                = Inr (out, ag')
     \<and> prev_info_state scenario_agent = Some ''[0.0]''
     \<and> step_size scenario_agent = 1/2 \<and> discount_factor scenario_agent = 1
     \<and> q_lookup (q_values scenario_agent) ''[0.0]'' (Some 4) = 0
     \<and> get_action_reward scenario_agent terminal_win = Inr 1
     \<and> q_entry (q_values ag') ''[0.0]'' (Some 4) = Some (1/2)
     \<and> last_loss_value ag' = Some (- 1/2))
   \<and> (\<exists>out ag'. step float01_repr constant_step pending_agent tied_position False False (1/2) 0
                = Inr (out, ag')
     \<and> q_lookup (q_values pending_agent) ''[0.0, 0.0, 0.0]'' (Some 4) = 0
     \<and> q_entry (q_values ag') ''[0.0, 0.0, 0.0]'' (Some 4) = Some (2/25)
     \<and> last_loss_value ag' = Some (- 18/25))"
  (is "?terminal \<and> ?multi")
proof -
  have terminal: ?terminal
  proof -
    obtain out ag' where st:
      "step float01_repr constant_step scenario_agent terminal_win False False 0 0 = Inr (out, ag')"
      by (simp add: step_defs store_defs scenario_agent_def terminal_win_def QLearner_init_def
          constant_step_def)
    have prev: "prev_info_state scenario_agent = Some ''[0.0]''"
      by (simp add: scenario_agent_def)
    have ne: "''[0.0]'' \<noteq> []" by simp
    have rw: "get_action_reward scenario_agent terminal_win = Inr 1"
      by (simp add: get_action_reward_def extra_reward_def scenario_agent_def terminal_win_def
          QLearner_init_def py_index_def)
    have old: "q_lookup (q_values scenario_agent) ''[0.0]'' (Some 4) = 0"
      by (simp add: scenario_agent_def QLearner_init_def q_lookup_def q_entry_def)
    have cfg: "step_size scenario_agent = 1/2" "discount_factor scenario_agent = 1"
              "prev_action scenario_agent = Some 4" "is_last terminal_win"
      by (simp_all add: scenario_agent_def QLearner_init_def terminal_win_def)
    from td_update_on_training_step [OF st prev ne]
    have "q_entry (q_values ag') ''[0.0]'' (Some 4) = Some (1/2)
        \<and> last_loss_value ag' = Some (- 1/2)"
      by (auto simp: rw old cfg)
    with st prev rw old cfg show ?thesis by blast
  qed
  have multi: ?multi
  proof -
    obtain out ag' where st:
      "step float01_repr constant_step pending_agent tied_position False False (1/2) 0 = Inr (out, ag')"
      by (simp add: step_defs store_defs select_defs np_zeros_9 pending_agent_def tied_agent_def
          fresh_agent_def tied_position_def QLearner_init_def constant_step_def constant_value_def
          float01_repr_def)
    have prev: "prev_info_state pending_agent = Some ''[0.0, 0.0, 0.0]''"
      by (simp add: pending_agent_def)
    have ne: "''[0.0, 0.0, 0.0]'' \<noteq> []" by simp
    have rw: "get_action_reward pending_agent tied_position = Inr 0"
      by (simp add: get_action_reward_def extra_reward_def pending_agent_def tied_agent_def
          fresh_agent_def tied_position_def QLearner_init_def py_index_def)
    have k: "info_state_key float01_repr (centralized pending_agent) (player_id pending_agent)
               (info_state tied_position) = Inr ''[1.0, 1.0, 0.0]''"
      by (simp add: info_state_key_def py_index_def py_list_str_def pending_agent_def tied_agent_def
          fresh_agent_def tied_position_def QLearner_init_def float01_repr_def)
    have l: "py_index (legal_actions tied_position) (player_id pending_agent) = Inr [0, 1, 2]"
      by (simp add: py_index_def pending_agent_def tied_agent_def
          fresh_agent_def tied_position_def QLearner_init_def)
    have lk: "q_lookup (q_values pending_agent) ''[0.0, 0.0, 0.0]'' (Some 4) = 0"
             "q_lookup (q_values pending_agent) ''[1.0, 1.0, 0.0]'' (Some 0) = 1/5"
             "q_lookup (q_values pending_agent) ''[1.0, 1.0, 0.0]'' (Some (Suc 0)) = 4/5"
             "q_lookup (q_values pending_agent) ''[1.0, 1.0, 0.0]'' (Some 2) = 4/5"
      by (simp_all add: pending_agent_def tied_agent_def q_lookup_def q_entry_def
          fresh_agent_def QLearner_init_def)
    have cfg: "step_size pending_agent = 1/10" "discount_factor pending_agent = 1"
              "prev_action pending_agent = Some 4" "\<not> is_last tied_position"
      by (simp_all add: pending_agent_def tied_agent_def fresh_agent_def QLearner_init_def
          tied_position_def)
    from td_update_on_training_step [OF st prev ne]
    have "q_entry (q_values ag') ''[0.0, 0.0, 0.0]'' (Some 4) = Some (2/25)
        \<and> last_loss_value ag' = Some (- 18/25)"
      by (auto simp: rw k l lk cfg)
    with st lk show ?thesis by blast
  qed
  from terminal multi show ?thesis by blast
qed

subsection \<open>The terminal learning call\<close>

text \<open>
  C7, as stated, fails: the terminal learning call clears the prior key only. In the
  scenario above the prior action is still 4 afterwards.
\<close>

theorem terminal_training_step_counterexample:
  "map_option prev_action
     (agent_after (step float01_repr constant_step scenario_agent terminal_win False False 0 0))
     = Some (Some 4)"
  by (simp add: step_defs store_defs scenario_agent_def terminal_win_def QLearner_init_def
      constant_step_def agent_after_def)

text \<open>
  C7, amended. A training call at a terminal time step with a pending transition that
  returns hands back no action and no probability vector, has cleared the prior key and
  kept the prior action, has advanced the schedule once, and leaves the agent exactly as
  the learn step produced it, with the prior key cleared: every entry of the Value Store
  other than the one at the pending transition is as before the call.
\<close>

theorem terminal_training_step:
  assumes st: "step R S ag ts False top1 u v = Inr (out, ag')"
      and last: "is_last ts"
      and prev: "prev_info_state ag = Some pk" and ne: "pk \<noteq> []"
  shows "(\<forall>r. out = Some r \<longrightarrow> action r = None \<and> probs r = None)
       \<and> prev_info_state ag' = None
       \<and> prev_action ag' = prev_action ag
       \<and> (epsilon ag', epsilon_schedule ag') = S (epsilon_schedule ag)
       \<and> (\<exists>key legal ag2. learn S ag ts key legal pk = Inr ag2
                        \<and> ag' = ag2\<lparr>prev_info_state := None\<rparr>)
       \<and> (\<forall>s a. (s, a) \<noteq> (pk, prev_action ag)
                \<longrightarrow> q_entry (q_values ag') s a = q_entry (q_values ag) s a)"
proof -
  from step_training_pending [OF st pending_key_Some [OF prev ne]]
  obtain key legal a p q1 ag2 where
        a: "act ag ts key legal False top1 u v = Inr (a, p, q1)"
    and le: "learn S (ag\<lparr>q_values := q1\<rparr>) ts key legal pk = Inr ag2"
    and fin: "if is_last ts then out = None \<and> ag' = ag2\<lparr>prev_info_state := None\<rparr>
            else out = Some \<lparr>action = a, probs = p\<rparr>
               \<and> ag' = ag2\<lparr>prev_info_state := Some key, prev_action := a\<rparr>"
    by blast
  have q1: "q1 = q_values ag" using a last by (simp add: act_def)
  have le': "learn S ag ts key legal pk = Inr ag2" using le q1 by simp
  have out: "out = None" and ag': "ag' = ag2\<lparr>prev_info_state := None\<rparr>"
    using fin last by simp_all
  from learn_result [OF le'] obtain new target where
        r: "ag2 = ag\<lparr> q_values := q_values ag2, last_loss_value := Some (new - target),
                     epsilon := fst (S (epsilon_schedule ag)),
                     epsilon_schedule := snd (S (epsilon_schedule ag)) \<rparr>"
    and e: "\<forall>s a. q_entry (q_values ag2) s a =
                (if s = pk \<and> a = prev_action ag then Some new
                 else if \<not> is_last ts \<and> s = key \<and> a \<in> Some ` set legal
                         \<and> q_entry (q_values ag) s a = None then Some 0
                 else q_entry (q_values ag) s a)"
    by blast
  have pa: "prev_action ag2 = prev_action ag" by (subst r) simp
  have ep: "(epsilon ag2, epsilon_schedule ag2) = S (epsilon_schedule ag)" by (subst r, subst (2) r) simp
  have fr: "\<forall>s a. (s, a) \<noteq> (pk, prev_action ag)
                \<longrightarrow> q_entry (q_values ag2) s a = q_entry (q_values ag) s a"
    using e last by simp
  show ?thesis using out le' pa ep fr unfolding ag' by auto
qed

theorem terminal_training_step_witness:
  "\<exists>out ag'. step float01_repr constant_step scenario_agent terminal_win False False 0 0
                = Inr (out, ag')
     \<and> is_last terminal_win
     \<and> prev_info_state scenario_agent = Some ''[0.0]''
     \<and> prev_info_state ag' = None \<and> prev_action ag' = Some 4 \<and> epsilon ag' = 1/5"
proof -
  obtain out ag' where st:
    "step float01_repr constant_step scenario_agent terminal_win False False 0 0 = Inr (out, ag')"
    by (simp add: step_defs store_defs scenario_agent_def terminal_win_def QLearner_init_def
        constant_step_def)
  have prev: "prev_info_state scenario_agent = Some ''[0.0]''"
    by (simp add: scenario_agent_def)
  have ne: "''[0.0]'' \<noteq> []" by simp
  have last: "is_last terminal_win" by (simp add: terminal_win_def)
  have cfg: "prev_action scenario_agent = Some 4" "epsilon_schedule scenario_agent = 1/5"
    by (simp_all add: scenario_agent_def QLearner_init_def)
  from terminal_training_step [OF st last prev ne]
  have "prev_info_state ag' = None \<and> prev_action ag' = Some 4 \<and> epsilon ag' = 1/5"
    by (simp add: cfg constant_step_def)
  with st last prev show ?thesis by blast
qed

subsection \<open>Evaluation calls\<close>

lemma first_move_eval:
  "step float01_repr constant_step fresh_agent first_move True False 0 0 =
     Inr (Some \<lparr>action = Some 0, probs = Some [1, 0, 0, 0, 0, 0, 0, 0, 0]\<rparr>,
          fresh_agent\<lparr>q_values := [''[1.0, 1.0, 0.0]'' \<mapsto> [Some 0 \<mapsto> 0, Some 1 \<mapsto> 0]]\<rparr>)"
  by (simp add: step_defs store_defs select_defs np_zeros_9 fresh_agent_def first_move_def
      QLearner_init_def float01_repr_def)


text \<open>
  C2, as stated, fails: an evaluation call at a non-terminal time step takes the greedy
  branch, whose reads insert the missing entries of the current key into the Value Store.
\<close>

theorem evaluation_call_counterexample:
  "agent_after (step float01_repr constant_step fresh_agent first_move True False 0 0)
     \<noteq> Some fresh_agent"
proof
  assume "agent_after (step float01_repr constant_step fresh_agent first_move True False 0 0)
            = Some fresh_agent"
  then have "fresh_agent\<lparr>q_values := [''[1.0, 1.0, 0.0]'' \<mapsto> [Some 0 \<mapsto> 0, Some 1 \<mapsto> 0]]\<rparr>
               = fresh_agent"
    by (simp add: first_move_eval agent_after_def)
  then have "q_values (fresh_agent\<lparr>q_values := [''[1.0, 1.0, 0.0]'' \<mapsto> [Some 0 \<mapsto> 0, Some 1 \<mapsto> 0]]\<rparr>)
               ''[1.0, 1.0, 0.0]'' = q_values fresh_agent ''[1.0, 1.0, 0.0]''"
    by simp
  then show False by (simp add: fresh_agent_def QLearner_init_def)
qed

lemma step_evaluation:
  assumes st: "step R S ag ts True top1 u v = Inr (out, ag')"
  shows "\<exists>key legal a p q1.
           info_state_key R (centralized ag) (player_id ag) (info_state ts) = Inr key
         \<and> py_index (legal_actions ts) (player_id ag) = Inr legal
         \<and> act ag ts key legal True top1 u v = Inr (a, p, q1)
         \<and> out = Some \<lparr>action = a, probs = p\<rparr> \<and> ag' = ag\<lparr>q_values := q1\<rparr>"
  using st by (auto simp: step_def Let_def split: sum.splits prod.splits)

text \<open>
  C2, amended. An evaluation call that returns changes no field other than the Value
  Store, and nothing at all at a terminal time step. In the Value Store every estimate,
  read with the default 0.0, is as before, every entry present before keeps its value,
  and an entry that is new has the value 0.0 and sits at the current key and a legal
  action of a non-terminal time step.
\<close>

theorem evaluation_call_frame:
  assumes st: "step R S ag ts True top1 u v = Inr (out, ag')"
  shows "ag' = ag\<lparr>q_values := q_values ag'\<rparr>
       \<and> (is_last ts \<longrightarrow> ag' = ag)
       \<and> (\<forall>s a. q_lookup (q_values ag') s a = q_lookup (q_values ag) s a)
       \<and> (\<forall>s a x. q_entry (q_values ag) s a = Some x \<longrightarrow> q_entry (q_values ag') s a = Some x)
       \<and> (\<forall>s a. q_entry (q_values ag) s a = None \<and> q_entry (q_values ag') s a \<noteq> None
              \<longrightarrow> q_entry (q_values ag') s a = Some 0 \<and> \<not> is_last ts
                \<and> info_state_key R (centralized ag) (player_id ag) (info_state ts) = Inr s
                \<and> (\<exists>legal b. py_index (legal_actions ts) (player_id ag) = Inr legal
                              \<and> b \<in> set legal \<and> a = Some b))"
proof -
  from step_evaluation [OF st] obtain key legal a p q1 where
        k: "info_state_key R (centralized ag) (player_id ag) (info_state ts) = Inr key"
    and l: "py_index (legal_actions ts) (player_id ag) = Inr legal"
    and a: "act ag ts key legal True top1 u v = Inr (a, p, q1)"
    and ag': "ag' = ag\<lparr>q_values := q1\<rparr>"
    by blast
  have q: "q_values ag' = q1" using ag' by simp
  have c1: "ag' = ag\<lparr>q_values := q_values ag'\<rparr>" using ag' by simp
  have c2: "is_last ts \<longrightarrow> ag' = ag" using a ag' by (auto simp: act_def)
  have c3: "\<forall>s a. q_lookup (q_values ag') s a = q_lookup (q_values ag) s a"
    using act_lookup [OF a] q by simp
  have c4: "\<forall>s a x. q_entry (q_values ag) s a = Some x \<longrightarrow> q_entry (q_values ag') s a = Some x"
    using act_entry [OF a] q by (metis option.distinct(1))
  have c5: "\<forall>s a. q_entry (q_values ag) s a = None \<and> q_entry (q_values ag') s a \<noteq> None
              \<longrightarrow> q_entry (q_values ag') s a = Some 0 \<and> \<not> is_last ts
                \<and> info_state_key R (centralized ag) (player_id ag) (info_state ts) = Inr s
                \<and> (\<exists>legal b. py_index (legal_actions ts) (player_id ag) = Inr legal
                              \<and> b \<in> set legal \<and> a = Some b)"
  proof (intro allI impI)
    fix s b
    assume h: "q_entry (q_values ag) s b = None \<and> q_entry (q_values ag') s b \<noteq> None"
    from act_entry [OF a, of s b] h q
    have "q_entry q1 s b = Some 0 \<and> s = key \<and> b \<in> Some ` set legal \<and> \<not> is_last ts"
      by auto
    then show "q_entry (q_values ag') s b = Some 0 \<and> \<not> is_last ts
                \<and> info_state_key R (centralized ag) (player_id ag) (info_state ts) = Inr s
                \<and> (\<exists>legal c. py_index (legal_actions ts) (player_id ag) = Inr legal
                              \<and> c \<in> set legal \<and> b = Some c)"
      using k l q by auto
  qed
  from c1 c2 c3 c4 c5 show ?thesis by blast
qed

theorem evaluation_call_frame_witness:
  "\<exists>out ag'. step float01_repr constant_step fresh_agent first_move True False 0 0
                 = Inr (out, ag')
     \<and> epsilon ag' = epsilon fresh_agent
     \<and> epsilon_schedule ag' = epsilon_schedule fresh_agent
     \<and> prev_info_state ag' = prev_info_state fresh_agent
     \<and> prev_action ag' = prev_action fresh_agent
     \<and> q_lookup (q_values ag') ''[1.0, 1.0, 0.0]'' (Some 1) = 0
     \<and> q_entry (q_values fresh_agent) ''[1.0, 1.0, 0.0]'' (Some 1) = None
     \<and> q_entry (q_values ag') ''[1.0, 1.0, 0.0]'' (Some 1) = Some 0"
proof -
  obtain out ag' where st:
    "step float01_repr constant_step fresh_agent first_move True False 0 0 = Inr (out, ag')"
    by (simp add: first_move_eval)
  have e0: "q_entry (q_values fresh_agent) ''[1.0, 1.0, 0.0]'' (Some 1) = None"
    by (simp add: fresh_agent_def QLearner_init_def q_entry_def)
  have e1: "q_entry (q_values ag') ''[1.0, 1.0, 0.0]'' (Some 1) \<noteq> None"
    using st by (auto simp: first_move_eval q_entry_def)
  note f = evaluation_call_frame [OF st]
  have same: "ag' = fresh_agent\<lparr>q_values := q_values ag'\<rparr>" using f by blast
  have lk: "q_lookup (q_values ag') ''[1.0, 1.0, 0.0]'' (Some 1) = 0"
    using f e0 by (simp add: q_lookup_def)
  have z: "q_entry (q_values ag') ''[1.0, 1.0, 0.0]'' (Some 1) = Some 0"
    using f e0 e1 by blast
  have "epsilon ag' = epsilon fresh_agent" "epsilon_schedule ag' = epsilon_schedule fresh_agent"
       "prev_info_state ag' = prev_info_state fresh_agent"
       "prev_action ag' = prev_action fresh_agent"
    by (subst same, simp)+
  with st lk e0 z show ?thesis by blast
qed

subsection \<open>Reward shaping\<close>

lemma np_int_array_eq:
  "np_int_array xs =
     (if list_all fits_int64 xs then Inr (map py_trunc xs) else Inl OverflowError)"
  by (induction xs) simp_all

lemma liked_board_slice:
  "current_player_board 0 liked_board = Inr [0, 1, 0, 1, 0, 1, 0, 0, 0]"
  "current_player_board (Suc n) liked_board = Inr [0, 0, 0, 0, 0, 0, 0, 0, 0]"
  by (simp_all add: current_player_board_def liked_board_def py_trunc_def fits_int64_def)

lemma likeable_liked: "likeable_pattern [0, 1, 0, 1, 0, 1, 0, 0, 0] = Inr 1000"
  by (simp add: likeable_pattern_def py_index_def flat_reward_mask_def)

text \<open>
  C6, as stated, fails: when the environment reports no rewards the reward is 0.0 and no
  rule is applied, although the configured rule would pay 1000 on this position.
\<close>

theorem shaping_without_rewards_counterexample:
  "rewards (liked_position None) = None
   \<and> extra_reward (shaped_agent 0) (liked_position None) = Inr 1000
   \<and> get_action_reward (shaped_agent 0) (liked_position None) = Inr 0"
  by (simp add: get_action_reward_def extra_reward_def shaped_agent_def liked_position_def
      QLearner_init_def py_index_def liked_board_slice likeable_liked py_sum_def)

lemma py_sum_sum_list: "py_sum xs = sum_list xs"
proof -
  have "foldl (+) a xs = a + sum_list xs" for a :: real
    by (induction xs arbitrary: a) simp_all
  then show ?thesis by (simp add: py_sum_def)
qed

lemma apply_rules_all2:
  "list_all2 (\<lambda>rule x. rule b = Inr x) rs xs \<Longrightarrow> apply_rules rs b = Inr xs"
  by (induction rs xs rule: list_all2_induct) simp_all

lemma extra_reward_eq:
  "extra_reward ag ts =
     (if configured_rules ag = [] then Inr 0
      else (case py_index (info_state ts) 0 of Inl e \<Rightarrow> Inl e
            | Inr vec \<Rightarrow>
              (case current_player_board (player_id ag) vec of Inl e \<Rightarrow> Inl e
               | Inr board \<Rightarrow>
                 (case apply_rules (configured_rules ag) board of
                    Inl e \<Rightarrow> Inl e
                  | Inr xs \<Rightarrow> Inr (py_sum xs)))))"
  by (auto simp: extra_reward_def configured_rules_def split: option.splits list.splits sum.splits)

text \<open>
  C6, amended. When the environment reports no rewards the reward fed to the update is
  0.0, whatever rules are configured and whatever they would do: none is applied. When it
  reports rewards and no rule is configured, the reward is this player's entry. When it
  reports rewards and rules are configured, the board slice of player 0's vector converts
  to integers and every rule returns a value on it, the reward is this player's entry
  plus the sum of those values. None of this depends on whether the time step is
  terminal.
\<close>

theorem shaped_reward_total:
  "(rewards ts = None \<longrightarrow> get_action_reward ag ts = Inr 0)
   \<and> (\<forall>rw. rewards ts = Some rw \<and> player_id ag < length rw \<and> configured_rules ag = []
          \<longrightarrow> get_action_reward ag ts = Inr (rw ! player_id ag))
   \<and> (\<forall>rw vec others board xs.
          rewards ts = Some rw \<and> player_id ag < length rw \<and> configured_rules ag \<noteq> []
          \<and> info_state ts = vec # others
          \<and> current_player_board (player_id ag) vec = Inr board
          \<and> list_all2 (\<lambda>rule x. rule board = Inr x) (configured_rules ag) xs
          \<longrightarrow> get_action_reward ag ts = Inr (rw ! player_id ag + sum_list xs))
   \<and> get_action_reward ag (ts\<lparr>is_last := b\<rparr>) = get_action_reward ag ts"
proof -
  have none: "rewards ts = None \<longrightarrow> get_action_reward ag ts = Inr 0"
    by (simp add: get_action_reward_def)
  have norule: "get_action_reward ag ts = Inr (rw ! player_id ag)"
    if "rewards ts = Some rw" "player_id ag < length rw" "configured_rules ag = []" for rw
    using that by (simp add: get_action_reward_def extra_reward_eq py_index_def)
  have shaped: "get_action_reward ag ts = Inr (rw ! player_id ag + sum_list xs)"
    if rw: "rewards ts = Some rw" "player_id ag < length rw"
      and c: "configured_rules ag \<noteq> []"
      and vec: "info_state ts = vec # others"
      and board: "current_player_board (player_id ag) vec = Inr board"
      and vals: "list_all2 (\<lambda>rule x. rule board = Inr x) (configured_rules ag) xs"
    for rw vec others board xs
  proof -
    have "apply_rules (configured_rules ag) board = Inr xs"
      using vals by (rule apply_rules_all2)
    then have "extra_reward ag ts = Inr (sum_list xs)"
      using c vec board by (simp add: extra_reward_eq py_index_def py_sum_sum_list)
    then show ?thesis using rw by (simp add: get_action_reward_def py_index_def)
  qed
  have l: "extra_reward ag (ts\<lparr>is_last := b\<rparr>) = extra_reward ag ts"
    by (simp add: extra_reward_eq)
  have last: "get_action_reward ag (ts\<lparr>is_last := b\<rparr>) = get_action_reward ag ts"
    using l by (auto simp: get_action_reward_def split: option.splits)
  from none norule shaped last show ?thesis by blast
qed

theorem shaped_reward_total_witness:
  "rewards (liked_position None) = None
   \<and> get_action_reward (shaped_agent 0) (liked_position None) = Inr 0
   \<and> rewards (liked_position (Some [1/2, - 1/2])) = Some [1/2, - 1/2]
   \<and> configured_rules (shaped_agent 0) = [likeable_pattern]
   \<and> info_state (liked_position (Some [1/2, - 1/2])) = [liked_board, liked_board]
   \<and> current_player_board 0 liked_board = Inr [0, 1, 0, 1, 0, 1, 0, 0, 0]
   \<and> likeable_pattern [0, 1, 0, 1, 0, 1, 0, 0, 0] = Inr 1000
   \<and> \<not> is_last (liked_position (Some [1/2, - 1/2]))
   \<and> get_action_reward (shaped_agent 0) (liked_position (Some [1/2, - 1/2])) = Inr (2001/2)"
proof -
  let ?ts = "liked_position (Some [1/2, - 1/2])"
  have c: "configured_rules (shaped_agent 0) = [likeable_pattern]"
    by (simp add: configured_rules_def shaped_agent_def QLearner_init_def)
  have i: "info_state ?ts = [liked_board, liked_board]" "\<not> is_last ?ts"
          "rewards ?ts = Some [1/2, - 1/2]" "rewards (liked_position None) = None"
    by (simp_all add: liked_position_def)
  have p: "player_id (shaped_agent 0) = 0" by (simp add: shaped_agent_def QLearner_init_def)
  note b = liked_board_slice(1) and v = likeable_liked
  have vals: "list_all2 (\<lambda>rule x. rule [0, 1, 0, 1, 0, 1, 0, 0, 0] = Inr x)
                (configured_rules (shaped_agent 0)) [1000]"
    using v by (simp add: c)
  note t = shaped_reward_total [of "liked_position None" "shaped_agent 0" True]
  have n: "get_action_reward (shaped_agent 0) (liked_position None) = Inr 0"
    using t i(4) by blast
  note t' = shaped_reward_total [of ?ts "shaped_agent 0" True]
  have "get_action_reward (shaped_agent 0) ?ts
          = Inr ([1/2, - 1/2] ! player_id (shaped_agent 0) + sum_list [1000])"
    using t' i(1,3) b vals c p by (metis length_Cons list.distinct(1) zero_less_Suc)
  then have s: "get_action_reward (shaped_agent 0) ?ts = Inr (2001/2)" by (simp add: p)
  from n s c i b v show ?thesis by blast
qed

lemma drop_as_nths: "drop m xs = map (\<lambda>i. xs ! i) [m..<length xs]"
  by (simp add: list_eq_iff_nth_eq)

lemma slice_as_nths: "take n (drop m xs) = map (\<lambda>i. xs ! i) [m..<min (m + n) (length xs)]"
  by (auto simp: list_eq_iff_nth_eq)

lemma current_player_board_nths:
  "current_player_board pid vec =
     np_int_array (map (\<lambda>i. vec ! i)
       (if pid = 0 then [9..<min 18 (length vec)] else [18..<length vec]))"
  using slice_as_nths [of 9 9 vec] drop_as_nths [of 18 vec]
  by (simp add: current_player_board_def)

text \<open>
  C10. With rules configured and rewards present, every rule is applied to a slice of the
  first vector of \<^verbatim>\<open>observations["info_state"]\<close>, player 0's: its entries 9 to 17 for
  player 0 and its entries from 18 on for any other player, each truncated to an integer.
  The call fails with OverflowError when one of these entries does not fit a 64-bit
  integer. The other vectors, the agent's own among them when it is not player 0, have
  no influence.
\<close>

theorem rule_board_from_player_0:
  assumes rw: "rewards ts = Some rw"
      and rs: "rules ag = Some (r # rs)"
      and vec: "info_state ts = vec # others"
      and idx: "idx = (if player_id ag = 0 then [9..<min 18 (length vec)]
                       else [18..<length vec])"
  shows "(list_all (\<lambda>i. fits_int64 (vec ! i)) idx \<longrightarrow>
            get_action_reward ag ts =
              (case apply_rules (r # rs) (map (\<lambda>i. py_trunc (vec ! i)) idx) of
                 Inl e \<Rightarrow> Inl e
               | Inr xs \<Rightarrow>
                   (case py_index rw (player_id ag) of Inl e \<Rightarrow> Inl e
                    | Inr x \<Rightarrow> Inr (x + py_sum xs))))
       \<and> (\<not> list_all (\<lambda>i. fits_int64 (vec ! i)) idx \<longrightarrow>
            get_action_reward ag ts = Inl OverflowError)
       \<and> get_action_reward ag (ts\<lparr>info_state := vec # others'\<rparr>) = get_action_reward ag ts"
proof -
  have b: "current_player_board (player_id ag) vec =
             (if list_all (\<lambda>i. fits_int64 (vec ! i)) idx
              then Inr (map (\<lambda>i. py_trunc (vec ! i)) idx) else Inl OverflowError)"
    unfolding current_player_board_nths idx [symmetric]
    by (simp add: np_int_array_eq list_all_iff)
  have e: "extra_reward ag (ts\<lparr>info_state := vec # y\<rparr>) =
             (case current_player_board (player_id ag) vec of Inl e \<Rightarrow> Inl e
              | Inr board \<Rightarrow>
                  (case apply_rules (r # rs) board of
                     Inl e \<Rightarrow> Inl e | Inr xs \<Rightarrow> Inr (py_sum xs)))" for y
    using rs by (simp add: extra_reward_def py_index_def)
  have t: "ts\<lparr>info_state := vec # others\<rparr> = ts" using vec by simp
  have g: "get_action_reward ag (ts\<lparr>info_state := vec # y\<rparr>) =
             (if list_all (\<lambda>i. fits_int64 (vec ! i)) idx then
                (case apply_rules (r # rs) (map (\<lambda>i. py_trunc (vec ! i)) idx) of
                   Inl e \<Rightarrow> Inl e
                 | Inr xs \<Rightarrow>
                     (case py_index rw (player_id ag) of Inl e \<Rightarrow> Inl e
                      | Inr x \<Rightarrow> Inr (x + py_sum xs)))
              else Inl OverflowError)" for y
    using rw by (simp add: get_action_reward_def e b split: sum.splits)
  from g [of others] g [of others'] t show ?thesis by simp
qed

theorem rule_board_from_player_0_witness:
  "rewards noughts_position = Some [0, 0]
   \<and> rules (shaped_agent (Suc 0)) = Some [likeable_pattern]
   \<and> info_state noughts_position = [noughts_board, replicate 27 0]
   \<and> player_id (shaped_agent (Suc 0)) = Suc 0 \<and> length noughts_board = 27
   \<and> list_all (\<lambda>i. fits_int64 (noughts_board ! i)) [18..<27]
   \<and> map (\<lambda>i. py_trunc (noughts_board ! i)) [18..<27] = [0, 1, 0, 1, 0, 1, 0, 0, 0]
   \<and> get_action_reward (shaped_agent (Suc 0)) noughts_position = Inr 1000
   \<and> get_action_reward (shaped_agent (Suc 0))
         (noughts_position\<lparr>info_state := [noughts_board, replicate 27 1]\<rparr>) = Inr 1000"
proof -
  have rw: "rewards noughts_position = Some [0, 0]"
    and vec: "info_state noughts_position = noughts_board # [replicate 27 0]"
    by (simp_all add: noughts_position_def)
  have rs: "rules (shaped_agent (Suc 0)) = Some (likeable_pattern # [])"
    and p: "player_id (shaped_agent (Suc 0)) = Suc 0"
    by (simp_all add: shaped_agent_def QLearner_init_def)
  have len: "length noughts_board = 27" by (simp add: noughts_board_def)
  have u: "[18..<27] = [18, 19, 20, 21, 22, 23, 24, 25, 26]" by (simp add: upt_rec)
  have idx: "[18..<27] = (if player_id (shaped_agent (Suc 0)) = 0
                      then [9..<min 18 (length noughts_board)]
                      else [18..<length noughts_board])"
    by (simp add: p len)
  have f: "list_all (\<lambda>i. fits_int64 (noughts_board ! i)) [18..<27]"
    unfolding u by (simp add: noughts_board_def fits_int64_def py_trunc_def)
  have b: "map (\<lambda>i. py_trunc (noughts_board ! i)) [18..<27] = [0, 1, 0, 1, 0, 1, 0, 0, 0]"
    unfolding u by (simp add: noughts_board_def py_trunc_def)
  note t = rule_board_from_player_0 [OF rw rs vec idx, of "[replicate 27 1]"]
  have "get_action_reward (shaped_agent (Suc 0)) noughts_position =
          (case apply_rules [likeable_pattern] (map (\<lambda>i. py_trunc (noughts_board ! i)) [18..<27]) of
             Inl e \<Rightarrow> Inl e
           | Inr xs \<Rightarrow>
               (case py_index [0, 0] (player_id (shaped_agent (Suc 0))) of Inl e \<Rightarrow> Inl e
                | Inr x \<Rightarrow> Inr (x + py_sum xs)))"
    using t f by blast
  then have g: "get_action_reward (shaped_agent (Suc 0)) noughts_position = Inr 1000"
    unfolding b by (simp add: p likeable_liked py_index_def py_sum_def)
  have "get_action_reward (shaped_agent (Suc 0))
         (noughts_position\<lparr>info_state := [noughts_board, replicate 27 1]\<rparr>) = Inr 1000"
    using t g by simp
  with g rw rs vec p len f b show ?thesis by blast
qed

subsection \<open>Construction\<close>

text \<open>
  C5, as stated, fails: the constructor checks nothing. A step size of 0, -1 actions and a
  discount factor of 2 give an agent.
\<close>

theorem constructor_accepts_counterexample:
  "QLearner_init constant_value 0 (- 1) 0 (1/5) 2 None False =
     \<lparr> player_id = 0, num_actions = - 1, step_size = 0, epsilon_schedule = 1/5,
       epsilon = 1/5, discount_factor = 2, centralized = False, q_values = Map.empty,
       prev_info_state = None, last_loss_value = None, prev_action = None, rules = None \<rparr>"
  by (simp add: QLearner_init_def constant_value_def)

text \<open>
  C5, amended. The constructor returns an agent for every configuration and stores the
  configuration as given; the Value Store is empty, there is no pending transition and
  the exploration probability is the schedule's current value.
\<close>

theorem constructor_stores_configuration:
  "player_id (QLearner_init sched_value pid n alpha sched gamma rs central) = pid
   \<and> num_actions (QLearner_init sched_value pid n alpha sched gamma rs central) = n
   \<and> step_size (QLearner_init sched_value pid n alpha sched gamma rs central) = alpha
   \<and> discount_factor (QLearner_init sched_value pid n alpha sched gamma rs central) = gamma
   \<and> epsilon_schedule (QLearner_init sched_value pid n alpha sched gamma rs central) = sched
   \<and> epsilon (QLearner_init sched_value pid n alpha sched gamma rs central) = sched_value sched
   \<and> rules (QLearner_init sched_value pid n alpha sched gamma rs central) = rs
   \<and> centralized (QLearner_init sched_value pid n alpha sched gamma rs central) = central
   \<and> q_values (QLearner_init sched_value pid n alpha sched gamma rs central) = Map.empty
   \<and> prev_info_state (QLearner_init sched_value pid n alpha sched gamma rs central) = None
   \<and> prev_action (QLearner_init sched_value pid n alpha sched gamma rs central) = None
   \<and> last_loss_value (QLearner_init sched_value pid n alpha sched gamma rs central) = None"
  by (simp add: QLearner_init_def)

subsection \<open>numpy primitives\<close>

lemma fold_assign_length [simp]: "length (fold (\<lambda>i q. q[i := c]) idx p) = length p"
  by (induction idx arbitrary: p) simp_all

lemma fold_assign_nth:
  "i < length p \<Longrightarrow> fold (\<lambda>i q. q[i := c]) idx p ! i = (if i \<in> set idx then c else p ! i)"
proof (induction idx arbitrary: p)
  case Nil
  show ?case by simp
next
  case (Cons j idx)
  show ?case using Cons.IH [of "p[j := c]"] Cons.prems by (auto simp: nth_list_update)
qed

lemma fold_assign_zeros:
  "fold (\<lambda>i q. q[i := c]) idx (replicate n (0::real)) = map (\<lambda>i. if i \<in> set idx then c else 0) [0..<n]"
  by (simp add: list_eq_iff_nth_eq fold_assign_nth)

lemma sum_list_indicator:
  assumes "distinct idx" and "\<forall>i\<in>set idx. i < n"
  shows "sum_list (map (\<lambda>i. if i \<in> set idx then c else 0) [0..<n]) = real (length idx) * c"
proof -
  have "sum_list (map (\<lambda>i. if i \<in> set idx then c else 0) [0..<n])
          = (\<Sum>i\<in>{0..<n}. if i \<in> set idx then c else 0)"
    by (simp add: interv_sum_list_conv_sum_set_nat)
  also have "\<dots> = (\<Sum>i\<in>{0..<n} \<inter> set idx. c)"
    by (rule sum.inter_restrict [symmetric]) simp
  also have "{0..<n} \<inter> set idx = set idx" using assms(2) by auto
  also have "(\<Sum>i\<in>set idx. c) = real (card (set idx)) * c" by simp
  also have "card (set idx) = length idx" using assms(1) by (rule distinct_card)
  finally show ?thesis .
qed

lemma cumsum_zeros: "cumsum a (replicate k 0) = replicate k a"
  by (induction k) simp_all

lemma cumsum_append: "cumsum a (xs @ ys) = cumsum a xs @ cumsum (a + sum_list xs) ys"
  by (induction xs arbitrary: a) (simp_all add: add.assoc)

lemma one_hot_split:
  "b < n \<Longrightarrow> (replicate n (0::real))[b := 1] = replicate b 0 @ 1 # replicate (n - Suc b) 0"
  by (simp add: upd_conv_take_nth_drop)

lemma choice_one_hot:
  assumes "b < n" "0 \<le> v" "v < 1"
  shows "np_random_choice ((replicate n 0)[b := 1]) v = Inr b"
proof -
  let ?p = "replicate b (0::real) @ 1 # replicate (n - Suc b) 0"
  have p: "(replicate n (0::real))[b := 1] = ?p" using assms(1) by (rule one_hot_split)
  have ne: "?p \<noteq> []" by simp
  have nn: "\<not> list_ex (\<lambda>x. x < 0) ?p" by (auto simp: list_ex_iff)
  have s: "sum_list ?p = 1" by (simp add: sum_list_replicate)
  have c: "cumsum 0 ?p = replicate b 0 @ 1 # cumsum 1 (replicate (n - Suc b) 0)"
    by (simp add: cumsum_append cumsum_zeros sum_list_replicate)
  have "takeWhile (\<lambda>c. c \<le> v) (cumsum 0 ?p) = replicate b 0"
    unfolding c using assms(2,3) by (simp add: takeWhile_tail)
  then have "searchsorted_right (cumsum 0 ?p) v = b" by (simp add: searchsorted_right_def)
  then show ?thesis unfolding p using nn s by (simp add: np_random_choice_def del: sum_list_append)
qed

lemma argmax_loop_first_max:
  assumes "best < length pre" "\<forall>j<length pre. pre ! j \<le> pre ! best" "\<forall>j<best. pre ! j < pre ! best"
  shows "argmax_loop xs (length pre) best (pre ! best) < length (pre @ xs)
       \<and> (\<forall>j<length (pre @ xs). (pre @ xs) ! j \<le> (pre @ xs) ! argmax_loop xs (length pre) best (pre ! best))
       \<and> (\<forall>j<argmax_loop xs (length pre) best (pre ! best).
             (pre @ xs) ! j < (pre @ xs) ! argmax_loop xs (length pre) best (pre ! best))"
  using assms
proof (induction xs arbitrary: pre best)
  case Nil
  then show ?case by simp
next
  case (Cons x xs)
  let ?pre = "pre @ [x]"
  show ?case
  proof (cases "pre ! best < x")
    case True
    have b: "length pre < length ?pre" by simp
    have m: "\<forall>j<length ?pre. ?pre ! j \<le> ?pre ! length pre"
      using Cons.prems True by (auto simp: nth_append less_Suc_eq intro: order.trans less_imp_le)
    have f: "\<forall>j<length pre. ?pre ! j < ?pre ! length pre"
      using Cons.prems True by (auto simp: nth_append intro: le_less_trans)
    from Cons.IH [of "length pre" ?pre, OF b m f] True show ?thesis by simp
  next
    case False
    have b: "best < length ?pre" using Cons.prems by simp
    have m: "\<forall>j<length ?pre. ?pre ! j \<le> ?pre ! best"
      using Cons.prems False by (auto simp: nth_append less_Suc_eq)
    have f: "\<forall>j<best. ?pre ! j < ?pre ! best"
      using Cons.prems by (auto simp: nth_append)
    have e: "?pre ! best = pre ! best" using Cons.prems by (simp add: nth_append)
    from Cons.IH [of best ?pre, OF b m f] False show ?thesis by (simp add: e)
  qed
qed

lemma np_argmax_first_max:
  assumes "xs \<noteq> []"
  shows "\<exists>i. np_argmax xs = Inr i \<and> i < length xs \<and> (\<forall>j<length xs. xs ! j \<le> xs ! i)
           \<and> (\<forall>j<i. xs ! j < xs ! i)"
proof -
  from assms obtain x rest where xs: "xs = x # rest" by (cases xs) auto
  from argmax_loop_first_max [of 0 "[x]" rest] show ?thesis
    by (simp add: xs np_argmax_def)
qed

lemma np_argmax_one_hot:
  assumes "b < n"
  shows "np_argmax ((replicate n 0)[b := 1]) = Inr b"
proof -
  let ?p = "(replicate n (0::real))[b := 1]"
  have "?p \<noteq> []" using assms by auto
  from np_argmax_first_max [OF this] obtain i where
    i: "np_argmax ?p = Inr i" "i < length ?p" "\<forall>j<length ?p. ?p ! j \<le> ?p ! i"
    by blast
  have "?p ! b \<le> ?p ! i" using i(3) assms by (metis length_list_update length_replicate)
  then have "i = b" using i(2) assms by (cases "i = b") (simp_all add: nth_list_update)
  then show ?thesis using i(1) by simp
qed

subsection \<open>The greedy branch\<close>

lemma np_zeros_Inr: "np_zeros n = Inr z \<Longrightarrow> 0 \<le> n \<and> z = replicate (nat n) 0"
  by (auto simp: np_zeros_def split: if_splits)

lemma np_assign_single:
  "np_assign p [b] c = (if b < length p then Inr (p[b := c]) else Inl IndexError)"
  by (simp add: np_assign_def)

lemma greedy_unfold:
  assumes "\<not> u < eps" "0 \<le> n"
  shows "epsilon_greedy n q s legal eps u v =
           (case np_argmax (map (\<lambda>a. q_lookup q s (Some a)) legal) of Inl e \<Rightarrow> Inl e
            | Inr i \<Rightarrow>
                if legal ! i < nat n then
                  (case np_random_choice ((replicate (nat n) 0)[legal ! i := 1]) v of
                     Inl e \<Rightarrow> Inl e
                   | Inr a \<Rightarrow> Inr (a, (replicate (nat n) 0)[legal ! i := 1],
                                  snd (q_get_all q s legal)))
                else Inl IndexError)"
proof -
  obtain qs q1 where g: "q_get_all q s legal = (qs, q1)" by (cases "q_get_all q s legal")
  have qs: "qs = map (\<lambda>a. q_lookup q s (Some a)) legal"
    using q_get_all_fst [of q s legal] g by simp
  show ?thesis using assms g qs
    by (simp add: epsilon_greedy_def np_zeros_def np_assign_single split: sum.splits)
qed

lemma greedy_result:
  assumes e: "epsilon_greedy n q s legal eps u v = Inr (a, p, q1)"
      and g: "\<not> u < eps" and v: "0 \<le> v" "v < 1"
  shows "\<exists>i<length legal. a = legal ! i \<and> legal ! i < nat n
           \<and> np_argmax (map (\<lambda>a. q_lookup q s (Some a)) legal) = Inr i
           \<and> p = (replicate (nat n) 0)[legal ! i := 1]
           \<and> (\<forall>j<length legal. q_lookup q s (Some (legal ! j)) \<le> q_lookup q s (Some (legal ! i)))
           \<and> (\<forall>j<i. q_lookup q s (Some (legal ! j)) < q_lookup q s (Some (legal ! i)))"
proof -
  have n: "0 \<le> n" using e by (auto simp: epsilon_greedy_def np_zeros_def split: if_splits)
  let ?qs = "map (\<lambda>a. q_lookup q s (Some a)) legal"
  note u = e [unfolded greedy_unfold [OF g n]]
  have ne: "?qs \<noteq> []" using u by (auto simp: np_argmax_def)
  from np_argmax_first_max [OF ne] obtain i where
    i: "np_argmax ?qs = Inr i" "i < length ?qs" "\<forall>j<length ?qs. ?qs ! j \<le> ?qs ! i"
       "\<forall>j<i. ?qs ! j < ?qs ! i"
    by blast
  have b: "legal ! i < nat n" using u i(1) by (auto split: if_splits)
  have a: "a = legal ! i" and p: "p = (replicate (nat n) 0)[legal ! i := 1]"
    using u i(1) b choice_one_hot [OF b v] by auto
  show ?thesis using i a p b by (intro exI [of _ i]) auto
qed

lemma greedy_repeat:
  assumes e: "epsilon_greedy n q s legal eps u v = Inr (a, p, q1)"
      and g: "\<not> u < eps" and v: "0 \<le> v" "v < 1"
      and same: "\<forall>x\<in>set legal. q_lookup q' s (Some x) = q_lookup q s (Some x)"
      and g': "\<not> u' < eps" and v': "0 \<le> v'" "v' < 1"
  shows "epsilon_greedy n q' s legal eps u' v' = Inr (a, p, snd (q_get_all q' s legal))"
proof -
  have n: "0 \<le> n" using e by (auto simp: epsilon_greedy_def np_zeros_def split: if_splits)
  from greedy_result [OF e g v] obtain i where
    i: "a = legal ! i" "legal ! i < nat n"
       "np_argmax (map (\<lambda>a. q_lookup q s (Some a)) legal) = Inr i"
       "p = (replicate (nat n) 0)[legal ! i := 1]"
    by blast
  have m: "map (\<lambda>a. q_lookup q' s (Some a)) legal = map (\<lambda>a. q_lookup q s (Some a)) legal"
    using same by simp
  show ?thesis
    unfolding greedy_unfold [OF g' n] m using i choice_one_hot [OF i(2) v'] by simp
qed

lemma act_greedy:
  assumes a: "act ag ts key legal ev top1 u v = Inr (a, p, q1)"
      and nl: "\<not> is_last ts"
      and g: "\<not> u < (if ev then 0 else epsilon ag)" and v: "0 \<le> v" "v < 1"
  shows "\<exists>b. a = Some b \<and> p = Some ((replicate (nat (num_actions ag)) 0)[b := 1])
           \<and> b < nat (num_actions ag) \<and> q1 = snd (q_get_all (q_values ag) key legal)
           \<and> epsilon_greedy (num_actions ag) (q_values ag) key legal
                (if ev then 0 else epsilon ag) u v
                = Inr (b, (replicate (nat (num_actions ag)) 0)[b := 1], q1)"
proof -
  from a nl obtain b p0 where
    e: "epsilon_greedy (num_actions ag) (q_values ag) key legal
          (if ev then 0 else epsilon ag) u v = Inr (b, p0, q1)"
    by (auto simp: act_def split: sum.splits if_splits)
  from greedy_result [OF e g v]
  have b: "b < nat (num_actions ag)" and p0: "p0 = (replicate (nat (num_actions ag)) 0)[b := 1]"
    by auto
  have q1: "q1 = snd (q_get_all (q_values ag) key legal)"
    using epsilon_greedy_store [OF e] g by simp
  have "a = Some b \<and> p = Some p0"
    using a nl e np_argmax_one_hot [OF b] by (auto simp: act_def p0 split: if_splits)
  then show ?thesis using b p0 q1 e by simp
qed

text \<open>
  C9. Whenever the act step of a non-terminal call takes the greedy branch, which every
  evaluation call does since no draw is below 0, the action it returns is the first one,
  in the order of the legal-action list, whose stored estimate is maximal: no legal
  action has a larger estimate and every earlier one has a smaller estimate. A further
  greedy call on any store with the same estimates for these actions, the store left by
  the first call among them, returns the same action and probabilities.
\<close>

theorem greedy_selects_first_maximum:
  assumes a: "act ag ts key legal ev top1 u v = Inr (a, p, q1)"
      and nl: "\<not> is_last ts"
      and g: "\<not> u < (if ev then 0 else epsilon ag)" and v: "0 \<le> v" "v < 1"
  shows "\<exists>i<length legal. a = Some (legal ! i)
           \<and> (\<forall>j<length legal. q_lookup (q_values ag) key (Some (legal ! j))
                                \<le> q_lookup (q_values ag) key (Some (legal ! i)))
           \<and> (\<forall>j<i. q_lookup (q_values ag) key (Some (legal ! j))
                      < q_lookup (q_values ag) key (Some (legal ! i)))
           \<and> (\<forall>q' u' v'. (\<forall>x\<in>set legal. q_lookup q' key (Some x)
                                           = q_lookup (q_values ag) key (Some x))
                  \<and> \<not> u' < (if ev then 0 else epsilon ag) \<and> 0 \<le> v' \<and> v' < 1
                \<longrightarrow> (\<exists>q2. act (ag\<lparr>q_values := q'\<rparr>) ts key legal ev top1 u' v' = Inr (a, p, q2)))"
proof -
  let ?n = "num_actions ag" and ?eps = "if ev then 0 else epsilon ag"
  from act_greedy [OF a nl g v] obtain b where
        ab: "a = Some b" and pb: "p = Some ((replicate (nat ?n) 0)[b := 1])"
    and bn: "b < nat ?n"
    and e: "epsilon_greedy ?n (q_values ag) key legal ?eps u v
              = Inr (b, (replicate (nat ?n) 0)[b := 1], q1)"
    by blast
  from greedy_result [OF e g v] obtain i where
    i: "i < length legal" "b = legal ! i"
       "\<forall>j<length legal. q_lookup (q_values ag) key (Some (legal ! j))
                                \<le> q_lookup (q_values ag) key (Some (legal ! i))"
       "\<forall>j<i. q_lookup (q_values ag) key (Some (legal ! j))
                      < q_lookup (q_values ag) key (Some (legal ! i))"
    by blast
  have rep: "\<exists>q2. act (ag\<lparr>q_values := q'\<rparr>) ts key legal ev top1 u' v' = Inr (a, p, q2)"
    if same: "\<forall>x\<in>set legal. q_lookup q' key (Some x) = q_lookup (q_values ag) key (Some x)"
      and g': "\<not> u' < ?eps" and v': "0 \<le> v'" "v' < 1" for q' u' v'
  proof -
    have "epsilon_greedy ?n q' key legal ?eps u' v'
            = Inr (b, (replicate (nat ?n) 0)[b := 1], snd (q_get_all q' key legal))"
      by (rule greedy_repeat [OF e g v same g' v'])
    then show ?thesis using nl ab pb np_argmax_one_hot [OF bn]
      by (auto simp: act_def)
  qed
  show ?thesis using i ab rep by (intro exI [of _ i]) blast
qed


lemma tied_eval:
  "step float01_repr constant_step tied_agent tied_position True False 0 0 =
     Inr (Some \<lparr>action = Some 1, probs = Some [0, 1, 0, 0, 0, 0, 0, 0, 0]\<rparr>, tied_agent)"
  by (simp add: step_defs store_defs select_defs np_zeros_9 tied_agent_def fresh_agent_def
      tied_position_def QLearner_init_def float01_repr_def)

lemma tied_act:
  "act tied_agent tied_position ''[1.0, 1.0, 0.0]'' [0, 1, 2] True False 0 0 =
     Inr (Some 1, Some [0, 1, 0, 0, 0, 0, 0, 0, 0], q_values tied_agent)"
  by (simp add: step_defs store_defs select_defs np_zeros_9 tied_agent_def fresh_agent_def
      tied_position_def QLearner_init_def)

theorem greedy_selects_first_maximum_witness:
  "act tied_agent tied_position ''[1.0, 1.0, 0.0]'' [0, 1, 2] True False 0 0 =
     Inr (Some 1, Some [0, 1, 0, 0, 0, 0, 0, 0, 0], q_values tied_agent)
   \<and> \<not> is_last tied_position
   \<and> step float01_repr constant_step tied_agent tied_position True False 0 0 =
       Inr (Some \<lparr>action = Some 1, probs = Some [0, 1, 0, 0, 0, 0, 0, 0, 0]\<rparr>, tied_agent)
   \<and> q_lookup (q_values tied_agent) ''[1.0, 1.0, 0.0]'' (Some 0) = 1/5
   \<and> q_lookup (q_values tied_agent) ''[1.0, 1.0, 0.0]'' (Some 1) = 4/5
   \<and> q_lookup (q_values tied_agent) ''[1.0, 1.0, 0.0]'' (Some 2) = 4/5
   \<and> (\<exists>q2. act tied_agent tied_position ''[1.0, 1.0, 0.0]'' [0, 1, 2] True False (1/2) (1/3)
            = Inr (Some 1, Some [0, 1, 0, 0, 0, 0, 0, 0, 0], q2))"
proof -
  have nl: "\<not> is_last tied_position" by (simp add: tied_position_def)
  have g: "\<not> (0::real) < (if True then 0 else epsilon tied_agent)" by simp
  have v: "(0::real) \<le> 0" "(0::real) < 1" by simp_all
  have l: "q_lookup (q_values tied_agent) ''[1.0, 1.0, 0.0]'' (Some 0) = 1/5"
          "q_lookup (q_values tied_agent) ''[1.0, 1.0, 0.0]'' (Some 1) = 4/5"
          "q_lookup (q_values tied_agent) ''[1.0, 1.0, 0.0]'' (Some 2) = 4/5"
    by (simp_all add: tied_agent_def q_lookup_def q_entry_def)
  have s: "tied_agent\<lparr>q_values := q_values tied_agent\<rparr> = tied_agent" by simp
  from greedy_selects_first_maximum [OF tied_act nl g v]
  have "\<forall>q' u' v'. (\<forall>x\<in>set [0, 1, 2]. q_lookup q' ''[1.0, 1.0, 0.0]'' (Some x)
                                           = q_lookup (q_values tied_agent) ''[1.0, 1.0, 0.0]'' (Some x))
                  \<and> \<not> u' < (if True then 0 else epsilon tied_agent) \<and> 0 \<le> v' \<and> v' < 1
                \<longrightarrow> (\<exists>q2. act (tied_agent\<lparr>q_values := q'\<rparr>) tied_position ''[1.0, 1.0, 0.0]''
                            [0, 1, 2] True False u' v'
                        = Inr (Some 1, Some [0, 1, 0, 0, 0, 0, 0, 0, 0], q2))"
    by blast
  from this [rule_format, of "q_values tied_agent" "1/2" "1/3"]
  have "\<exists>q2. act tied_agent tied_position ''[1.0, 1.0, 0.0]'' [0, 1, 2] True False (1/2) (1/3)
            = Inr (Some 1, Some [0, 1, 0, 0, 0, 0, 0, 0, 0], q2)"
    unfolding s by simp
  with tied_act tied_eval nl l show ?thesis by blast
qed


subsection \<open>The probability vector\<close>

lemma explore_unfold:
  assumes "u < eps" "legal \<noteq> []" "\<forall>i\<in>set legal. int i < n"
  shows "epsilon_greedy n q s legal eps u v =
           (case np_random_choice
                   (map (\<lambda>i. if i \<in> set legal then 1 / real (length legal) else 0) [0..<nat n]) v of
              Inl e \<Rightarrow> Inl e
            | Inr a \<Rightarrow> Inr (a, map (\<lambda>i. if i \<in> set legal then 1 / real (length legal) else 0)
                                  [0..<nat n], q))"
proof -
  have n: "0 \<le> n" using assms(2,3) by (cases legal) auto
  have r: "list_all (\<lambda>i. i < nat n) legal" using assms(3) by (auto simp: list_all_iff)
  show ?thesis using assms(1,2) n r
    by (simp add: epsilon_greedy_def np_zeros_def np_assign_def fold_assign_zeros)
qed

lemma choice_returns:
  assumes "p \<noteq> []" "\<forall>x\<in>set p. 0 \<le> x" "sum_list p = 1"
  shows "\<exists>a. np_random_choice p v = Inr a"
  using assms by (auto simp: np_random_choice_def list_ex_iff not_less)

text \<open>
  C3. For a non-empty legal-action list without duplicates whose actions are action ids
  (below \<open>num_actions\<close>) and an exploration probability in \<open>[0, 1]\<close>, the selector
  returns, and its probability vector has length \<open>num_actions\<close>, sums to 1 and is 0 at
  every action that is not legal. In the exploration branch every legal action has
  probability \<open>1 / |legal|\<close>; in the greedy branch one legal action has probability 1 and
  every other action 0.
\<close>

theorem selector_probabilities:
  assumes ne: "legal \<noteq> []" and d: "distinct legal" and r: "\<forall>i\<in>set legal. int i < n"
      and eps: "0 \<le> eps" "eps \<le> 1"
  shows "\<exists>a p q1. epsilon_greedy n q s legal eps u v = Inr (a, p, q1)
           \<and> int (length p) = n \<and> sum_list p = 1
           \<and> (\<forall>i<length p. i \<notin> set legal \<longrightarrow> p ! i = 0)
           \<and> (u < eps \<longrightarrow> (\<forall>i\<in>set legal. p ! i = 1 / real (length legal)))
           \<and> (\<not> u < eps \<longrightarrow> (\<exists>b\<in>set legal. p ! b = 1 \<and> (\<forall>i<length p. i \<noteq> b \<longrightarrow> p ! i = 0)))"
proof -
  have n: "0 \<le> n" using ne r by (cases legal) auto
  have r': "\<forall>i\<in>set legal. i < nat n" using r by auto
  show ?thesis
  proof (cases "u < eps")
    case True
    let ?c = "1 / real (length legal)"
    let ?p = "map (\<lambda>i. if i \<in> set legal then ?c else 0) [0..<nat n]"
    have s: "sum_list ?p = 1" using sum_list_indicator [OF d r', of ?c] ne by simp
    have pne: "?p \<noteq> []" using ne r' by (cases legal) auto
    have nn: "\<forall>x\<in>set ?p. 0 \<le> x" by auto
    from choice_returns [OF pne nn s] obtain a where a: "np_random_choice ?p v = Inr a" by blast
    have e: "epsilon_greedy n q s legal eps u v = Inr (a, ?p, q)"
      using explore_unfold [OF True ne r] a by simp
    have l: "int (length ?p) = n" using n by simp
    have z: "\<forall>i<length ?p. i \<notin> set legal \<longrightarrow> ?p ! i = 0" by simp
    have c: "\<forall>i\<in>set legal. ?p ! i = ?c" using r' by simp
    from e l s z c True show ?thesis by blast
  next
    case False
    let ?qs = "map (\<lambda>a. q_lookup q s (Some a)) legal"
    have "?qs \<noteq> []" using ne by simp
    from np_argmax_first_max [OF this] obtain i where
      i: "np_argmax ?qs = Inr i" "i < length legal" by auto
    let ?b = "legal ! i"
    let ?p = "(replicate (nat n) (0::real))[?b := 1]"
    have b: "?b \<in> set legal" "?b < nat n" using i(2) r' by simp_all
    have pne: "?p \<noteq> []" using b(2) by auto
    have nn: "\<forall>x\<in>set ?p. 0 \<le> x"
      using b(2) by (auto simp: one_hot_split)
    have s: "sum_list ?p = 1" using b(2) by (simp add: one_hot_split sum_list_replicate)
    from choice_returns [OF pne nn s] obtain a where a: "np_random_choice ?p v = Inr a" by blast
    have e: "epsilon_greedy n q s legal eps u v = Inr (a, ?p, snd (q_get_all q s legal))"
      using greedy_unfold [OF False n, of q s legal v] i(1) b(2) a by simp
    have l: "int (length ?p) = n" using n by simp
    have o: "?p ! ?b = 1 \<and> (\<forall>i<length ?p. i \<noteq> ?b \<longrightarrow> ?p ! i = 0)" using b(2) by simp
    have z: "\<forall>i<length ?p. i \<notin> set legal \<longrightarrow> ?p ! i = 0" using b(1) o by metis
    from e l s z o b(1) False show ?thesis by blast
  qed
qed


theorem selector_probabilities_witness:
  "[0, 2, 4] \<noteq> ([]::nat list) \<and> distinct [0, 2, 4 :: nat]
   \<and> list_all (\<lambda>i. int i < 9) [0, 2, 4] \<and> (0::real) \<le> 1/5 \<and> (1/5::real) \<le> 1
   \<and> (\<exists>a p q1. epsilon_greedy 9 Map.empty ''[1.0, 1.0, 0.0]'' [0, 2, 4] (1/5) (1/10) (1/2)
                  = Inr (a, p, q1)
          \<and> length p = 9 \<and> sum_list p = 1 \<and> p ! 1 = 0 \<and> p ! 2 = 1/3 \<and> p ! 4 = 1/3)"
proof -
  have ne: "[0, 2, 4] \<noteq> ([]::nat list)" and d: "distinct [0, 2, 4 :: nat]"
    and r: "\<forall>i\<in>set [0, 2, 4 :: nat]. int i < 9"
    and eps: "(0::real) \<le> 1/5" "(1/5::real) \<le> 1"
    by simp_all
  from selector_probabilities [OF ne d r eps, of Map.empty "''[1.0, 1.0, 0.0]''" "1/10" "1/2"]
  obtain a p q1 where
        e: "epsilon_greedy 9 Map.empty ''[1.0, 1.0, 0.0]'' [0, 2, 4] (1/5) (1/10) (1/2)
              = Inr (a, p, q1)"
    and l: "int (length p) = 9" and s: "sum_list p = 1"
    and z: "\<forall>i<length p. i \<notin> set [0, 2, 4] \<longrightarrow> p ! i = 0"
    and c: "(1/10::real) < 1/5 \<longrightarrow> (\<forall>i\<in>set [0, 2, 4]. p ! i = 1 / real (length [0, 2, 4 :: nat]))"
    by blast
  have l': "length p = 9" using l by simp
  have "p ! 1 = 0" using z l' by simp
  moreover have "p ! 2 = 1/3" "p ! 4 = 1/3" using c by simp_all
  moreover have "list_all (\<lambda>i. int i < 9) [0, 2, 4]" by simp
  ultimately show ?thesis using ne d eps e l' s by blast
qed

subsection \<open>No legal action\<close>

text \<open>
  C4, as stated, fails: the code has no condition of its own for an empty legal-action
  list. The selector fails there with ZeroDivisionError in the exploration branch and
  with ValueError in the greedy branch, and ValueError is also what it raises on a
  non-empty list when \<open>num_actions\<close> is negative or the list has a duplicate.
\<close>

theorem empty_legal_actions_counterexample:
  "epsilon_greedy 9 Map.empty ''[1.0, 1.0, 0.0]'' [] (1/5) (1/10) 0 = Inl ZeroDivisionError
   \<and> epsilon_greedy 9 Map.empty ''[1.0, 1.0, 0.0]'' [] (1/5) (1/2) 0 = Inl ValueError
   \<and> epsilon_greedy (- 1) Map.empty ''[1.0, 1.0, 0.0]'' [0] (1/5) (1/2) 0 = Inl ValueError
   \<and> epsilon_greedy 9 Map.empty ''[1.0, 1.0, 0.0]'' [0, 0] (1/5) (1/10) 0 = Inl ValueError"
proof -
  have "epsilon_greedy (- 1) Map.empty ''[1.0, 1.0, 0.0]'' [0] (1/5) (1/2) 0 = Inl ValueError"
    by (simp add: epsilon_greedy_def np_zeros_def)
  then show ?thesis by (simp add: select_defs np_zeros_9)
qed

text \<open>
  C4, amended. With an empty legal-action list the selector fails: with ValueError when
  \<open>num_actions\<close> is negative, else with ZeroDivisionError when the exploration branch is
  drawn (\<^verbatim>\<open>1 / len(legal_actions)\<close>) and with ValueError in the greedy branch
  (\<^verbatim>\<open>np.argmax\<close> of an empty array). A non-terminal call to step whose legal-action list is
  empty fails with the same error and returns no step result.
\<close>

theorem empty_legal_actions_fail:
  "epsilon_greedy n q s [] eps u v =
     Inl (if n < 0 then ValueError else if u < eps then ZeroDivisionError else ValueError)
   \<and> (\<not> is_last ts \<and> py_index (legal_actions ts) (player_id ag) = Inr []
        \<and> info_state_key R (centralized ag) (player_id ag) (info_state ts) = Inr key
        \<longrightarrow> step R S ag ts ev top1 u v =
              Inl (if num_actions ag < 0 then ValueError
                   else if u < (if ev then 0 else epsilon ag) then ZeroDivisionError
                   else ValueError))"
proof -
  have sel: "epsilon_greedy n q s [] eps u v =
     Inl (if n < 0 then ValueError else if u < eps then ZeroDivisionError else ValueError)" for n q s eps
    by (simp add: epsilon_greedy_def np_zeros_def np_argmax_def)
  have "step R S ag ts ev top1 u v =
              Inl (if num_actions ag < 0 then ValueError
                   else if u < (if ev then 0 else epsilon ag) then ZeroDivisionError
                   else ValueError)"
    if "\<not> is_last ts" "py_index (legal_actions ts) (player_id ag) = Inr []"
       "info_state_key R (centralized ag) (player_id ag) (info_state ts) = Inr key"
    using that by (simp add: step_def act_def sel)
  with sel show ?thesis by blast
qed

theorem empty_legal_actions_fail_witness:
  "\<not> is_last stuck_position
   \<and> py_index (legal_actions stuck_position) (player_id fresh_agent) = Inr []
   \<and> info_state_key float01_repr (centralized fresh_agent) (player_id fresh_agent)
        (info_state stuck_position) = Inr ''[1.0, 1.0, 0.0]''
   \<and> num_actions fresh_agent = 9 \<and> epsilon fresh_agent = 1/5
   \<and> step float01_repr constant_step fresh_agent stuck_position False False (1/10) 0
       = Inl ZeroDivisionError
   \<and> step float01_repr constant_step fresh_agent stuck_position False False (1/2) 0
       = Inl ValueError
   \<and> step float01_repr constant_step fresh_agent stuck_position True False (1/10) 0
       = Inl ValueError"
proof -
  have h: "\<not> is_last stuck_position"
          "py_index (legal_actions stuck_position) (player_id fresh_agent) = Inr []"
    by (simp_all add: stuck_position_def fresh_agent_def QLearner_init_def py_index_def)
  have k: "info_state_key float01_repr (centralized fresh_agent) (player_id fresh_agent)
             (info_state stuck_position) = Inr ''[1.0, 1.0, 0.0]''"
    by (simp add: info_state_key_def py_index_def py_list_str_def stuck_position_def
        fresh_agent_def QLearner_init_def float01_repr_def)
  have c: "num_actions fresh_agent = 9" "epsilon fresh_agent = 1/5"
    by (simp_all add: fresh_agent_def QLearner_init_def constant_value_def)
  note t = empty_legal_actions_fail [of 0 Map.empty "[]" 0 _ 0 stuck_position fresh_agent
      float01_repr "''[1.0, 1.0, 0.0]''" constant_step]
  have "step float01_repr constant_step fresh_agent stuck_position False False (1/10) 0
          = Inl ZeroDivisionError"
       "step float01_repr constant_step fresh_agent stuck_position False False (1/2) 0
          = Inl ValueError"
       "step float01_repr constant_step fresh_agent stuck_position True False (1/10) 0
          = Inl ValueError"
    using t [of "1/10" False False] t [of "1/2" False False] t [of "1/10" True False] h k
    by (simp_all add: c)
  with h k c show ?thesis by blast
qed

subsection \<open>State keys\<close>

lemma py_join_Cons:
  "py_join (y # ys) = y @ (if ys = [] then [] else '', '' @ py_join ys)"
  by (cases ys) simp_all

lemma py_join_inject:
  assumes first: "\<And>x r. x \<in> A \<Longrightarrow> r = [] \<or> (\<exists>r'. r = '', '' @ r') \<Longrightarrow> first (x @ r) = x"
      and ne: "\<And>x. x \<in> A \<Longrightarrow> x \<noteq> []"
  shows "set xs \<subseteq> A \<Longrightarrow> set ys \<subseteq> A \<Longrightarrow> py_join xs = py_join ys \<Longrightarrow> xs = ys"
proof (induction xs arbitrary: ys)
  case Nil
  show ?case
  proof (cases ys)
    case Nil
    then show ?thesis by simp
  next
    case (Cons y ys')
    then have "y \<noteq> []" using Nil.prems ne by simp
    then show ?thesis using Nil.prems Cons by (simp add: py_join_Cons)
  qed
next
  case (Cons x xs)
  have xA: "x \<in> A" using Cons.prems by simp
  show ?case
  proof (cases ys)
    case Nil
    then show ?thesis using Cons.prems ne [OF xA] by (simp add: py_join_Cons)
  next
    case (Cons y ys')
    have yA: "y \<in> A" using Cons.prems Cons by simp
    let ?r1 = "if xs = [] then [] else '', '' @ py_join xs"
    let ?r2 = "if ys' = [] then [] else '', '' @ py_join ys'"
    have eq: "x @ ?r1 = y @ ?r2" using Cons.prems(3) Cons by (simp add: py_join_Cons)
    have "first (x @ ?r1) = x" by (rule first [OF xA]) auto
    moreover have "first (y @ ?r2) = y" by (rule first [OF yA]) auto
    ultimately have xy: "x = y" using eq by simp
    then have r: "?r1 = ?r2" using eq by simp
    have "xs = ys'"
    proof (cases "xs = []")
      case True
      then show ?thesis using r by (auto split: if_splits)
    next
      case False
      then have "ys' \<noteq> []" "py_join xs = py_join ys'" using r by (auto split: if_splits)
      then show ?thesis using Cons.IH [of ys'] Cons.prems Cons by simp
    qed
    then show ?thesis using xy Cons by simp
  qed
qed

lemma py_join_no_char:
  assumes "\<forall>s\<in>set xs. c \<notin> set s" "c \<noteq> CHR '',''" "c \<noteq> CHR '' ''"
  shows "c \<notin> set (py_join xs)"
  using assms by (induction xs rule: py_join.induct) auto

lemma takeWhile_until: "c \<notin> set x \<Longrightarrow> takeWhile (\<lambda>d. d \<noteq> c) (x @ c # r) = x"
  by (induction x) auto

lemma vector_str_inject:
  assumes clean: "\<forall>x\<in>set v \<union> set w. R x \<noteq> [] \<and> CHR '','' \<notin> set (R x)"
      and inj: "inj_on R (set v \<union> set w)"
      and eq: "py_list_str R v = py_list_str R w"
  shows "v = w"
proof -
  let ?A = "{s. s \<noteq> [] \<and> CHR '','' \<notin> set s}"
  have f: "takeWhile (\<lambda>c. c \<noteq> CHR '','') (x @ r) = x"
    if "x \<in> ?A" "r = [] \<or> (\<exists>r'. r = '', '' @ r')" for x r
    using that by (auto simp: takeWhile_until)
  have j: "py_join (map R v) = py_join (map R w)" using eq by (simp add: py_list_str_def)
  have "map R v = map R w"
    by (rule py_join_inject [where A = ?A and first = "takeWhile (\<lambda>c. c \<noteq> CHR '','')", OF f _ _ _ j])
       (use clean in auto)
  then show ?thesis using inj by (rule map_inj_on)
qed


lemma vector_str_shape:
  assumes "\<forall>x\<in>set v. CHR '']'' \<notin> set (R x)"
  shows "\<exists>body. py_list_str R v = ''['' @ body @ '']'' \<and> CHR '']'' \<notin> set body"
proof -
  have "CHR '']'' \<notin> set (py_join (map R v))"
    by (rule py_join_no_char) (use assms in auto)
  then show ?thesis by (auto simp: py_list_str_def)
qed

lemma observation_str_inject:
  assumes clean: "\<forall>x\<in>\<Union>(set ` (set o1 \<union> set o2)).
                     R x \<noteq> [] \<and> CHR '','' \<notin> set (R x) \<and> CHR '']'' \<notin> set (R x)"
      and inj: "inj_on R (\<Union>(set ` (set o1 \<union> set o2)))"
      and eq: "py_list_str (py_list_str R) o1 = py_list_str (py_list_str R) o2"
  shows "o1 = o2"
proof -
  let ?A = "{s. \<exists>body. s = ''['' @ body @ '']'' \<and> CHR '']'' \<notin> set body}"
  let ?first = "\<lambda>s. takeWhile (\<lambda>c. c \<noteq> CHR '']'') s @ '']''"
  have f: "?first (x @ r) = x" if "x \<in> ?A" for x r
  proof -
    from that obtain body where b: "x = ''['' @ body @ '']''" "CHR '']'' \<notin> set body" by auto
    have "takeWhile (\<lambda>c. c \<noteq> CHR '']'') ((''['' @ body) @ CHR '']'' # r) = ''['' @ body"
      by (rule takeWhile_until) (use b(2) in simp)
    then show ?thesis using b(1) by simp
  qed
  have A: "py_list_str R v \<in> ?A" if "v \<in> set o1 \<union> set o2" for v
    using vector_str_shape [of v R] clean that by blast
  have j: "py_join (map (py_list_str R) o1) = py_join (map (py_list_str R) o2)"
    using eq by (simp add: py_list_str_def)
  have m: "map (py_list_str R) o1 = map (py_list_str R) o2"
    by (rule py_join_inject [where A = ?A and first = ?first, OF f _ _ _ j]) (use A in auto)
  have "inj_on (py_list_str R) (set o1 \<union> set o2)"
  proof (rule inj_onI)
    fix v w
    assume v: "v \<in> set o1 \<union> set o2" and w: "w \<in> set o1 \<union> set o2"
       and e: "py_list_str R v = py_list_str R w"
    have c: "\<forall>x\<in>set v \<union> set w. R x \<noteq> [] \<and> CHR '','' \<notin> set (R x)"
      using clean v w by blast
    have "set v \<union> set w \<subseteq> \<Union>(set ` (set o1 \<union> set o2))" using v w by blast
    then have i: "inj_on R (set v \<union> set w)" using inj by (rule inj_on_subset [rotated])
    show "v = w" by (rule vector_str_inject [OF c i e])
  qed
  with m show ?thesis by (rule map_inj_on)
qed

text \<open>
  C8. Take two observation structures that agree on the owning player's vector and differ
  somewhere else, and a \<^verbatim>\<open>repr\<close> of their entries that is injective, never empty and
  free of commas and closing brackets, as Python's \<^verbatim>\<open>repr\<close> of a float is. The State Keys
  that step computes from them differ when the agent is centralized and are equal when it
  is not.
\<close>

theorem state_key_centralized_vs_decentralized:
  assumes own: "pid < length o1" "pid < length o2" "o1 ! pid = o2 ! pid"
      and other: "o1 \<noteq> o2"
      and clean: "\<forall>x\<in>\<Union>(set ` (set o1 \<union> set o2)).
                     R x \<noteq> [] \<and> CHR '','' \<notin> set (R x) \<and> CHR '']'' \<notin> set (R x)"
      and inj: "inj_on R (\<Union>(set ` (set o1 \<union> set o2)))"
  shows "info_state_key R True pid o1 \<noteq> info_state_key R True pid o2
       \<and> info_state_key R False pid o1 = info_state_key R False pid o2"
proof -
  have "py_list_str (py_list_str R) o1 \<noteq> py_list_str (py_list_str R) o2"
    using observation_str_inject [OF clean inj] other by blast
  then show ?thesis using own by (simp add: info_state_key_def py_index_def)
qed

theorem state_key_centralized_vs_decentralized_witness:
  "(0::nat) < length [[1, 0], [0, 1 :: real]] \<and> (0::nat) < length [[1, 0], [1, 1 :: real]]
   \<and> [[1, 0], [0, 1 :: real]] ! 0 = [[1, 0], [1, 1]] ! 0
   \<and> [[1, 0], [0, 1 :: real]] ! 1 \<noteq> [[1, 0], [1, 1]] ! 1
   \<and> float01_repr 0 = ''0.0'' \<and> float01_repr 1 = ''1.0''
   \<and> info_state_key float01_repr True 0 [[1, 0], [0, 1]]
       \<noteq> info_state_key float01_repr True 0 [[1, 0], [1, 1]]
   \<and> info_state_key float01_repr False 0 [[1, 0], [0, 1]] = Inr ''[1.0, 0.0]''
   \<and> info_state_key float01_repr False 0 [[1, 0], [1, 1]] = Inr ''[1.0, 0.0]''"
proof -
  let ?o1 = "[[1, 0], [0, 1 :: real]]" and ?o2 = "[[1, 0], [1, 1 :: real]]"
  have own: "(0::nat) < length ?o1" "(0::nat) < length ?o2" "?o1 ! 0 = ?o2 ! 0" by simp_all
  have other: "?o1 \<noteq> ?o2" "?o1 ! 1 \<noteq> ?o2 ! 1" by simp_all
  have r: "float01_repr 0 = ''0.0''" "float01_repr 1 = ''1.0''"
    by (simp_all add: float01_repr_def)
  have cells: "\<Union>(set ` (set ?o1 \<union> set ?o2)) = {0, 1}" by auto
  have clean: "\<forall>x\<in>\<Union>(set ` (set ?o1 \<union> set ?o2)).
       float01_repr x \<noteq> [] \<and> CHR '','' \<notin> set (float01_repr x) \<and> CHR '']'' \<notin> set (float01_repr x)"
    unfolding cells by (simp add: r)
  have inj: "inj_on float01_repr (\<Union>(set ` (set ?o1 \<union> set ?o2)))"
    unfolding cells by (simp add: r)
  from state_key_centralized_vs_decentralized [OF own other(1) clean inj]
  have "info_state_key float01_repr True 0 ?o1 \<noteq> info_state_key float01_repr True 0 ?o2"
       "info_state_key float01_repr False 0 ?o1 = info_state_key float01_repr False 0 ?o2"
    by simp_all
  moreover have "info_state_key float01_repr False 0 ?o1 = Inr ''[1.0, 0.0]''"
    by (simp add: info_state_key_def py_index_def py_list_str_def r)
  ultimately show ?thesis using own other r by simp
qed

end
